theory Spec2Isabelle
  imports Complex_Main "HOL-Library.Char_ord" "HOL-Library.List_Lexorder" "HOL-Library.Multiset"
    "HOL-Library.AList"
begin

section \<open>Python values: errors, checked indexing\<close>

text \<open>
  Every exception the modelled code can raise is a value. A computation that may raise
  returns \<open>py_error + 'a\<close>, with \<open>Inl\<close> the exception.
\<close>

datatype py_error = IndexError | ZeroDivisionError | NameError | KeyError | TypeError

fun pbind :: "py_error + 'a \<Rightarrow> ('a \<Rightarrow> py_error + 'b) \<Rightarrow> py_error + 'b" where
  "pbind (Inl e) f = Inl e"
| "pbind (Inr x) f = f x"

text \<open>Python's \<open>xs[i]\<close>: a negative index counts from the end, out of range raises.\<close>

definition py_index :: "'a list \<Rightarrow> int \<Rightarrow> py_error + 'a" where
  "py_index xs i =
     (if 0 \<le> i \<and> i < int (length xs) then Inr (xs ! nat i)
      else if i < 0 \<and> - int (length xs) \<le> i then Inr (xs ! nat (int (length xs) + i))
      else Inl IndexError)"

text \<open>Python's \<open>range(lo, hi)\<close> for \<open>lo \<ge> 0\<close>; it is empty when \<open>hi \<le> lo\<close>.\<close>

definition py_range :: "nat \<Rightarrow> int \<Rightarrow> nat list" where
  "py_range lo hi = [lo ..< nat hi]"

section \<open>The data model (models.py)\<close>

record teacher =
  teacher_id :: int
  last_name :: string
  first_name :: string
  slot_preferences :: "int option list"

record class_ =
  class_id :: int
  class_name :: string
  group_name :: string
  slot_count :: int
  teachers :: "teacher list"

record group =
  group_id :: int
  gname :: string
  gclasses :: "class_ list"

record slot =
  slot_id :: int
  weekday :: int
  start_time :: string
  end_time :: string
  is_lunch_break :: bool
  is_evening :: bool

record semester =
  sem_id :: int
  sem_name :: string
  classes :: "class_ list"
  groups :: "group list"

text \<open>
  \<open>DataStorage\<close>: the teachers dictionary (in insertion order), the semesters and the slot
  calendar. The decorator \<open>with_storage\<close> passes it to every function that needs it; here it
  is an explicit argument.
\<close>

record storage =
  st_teachers :: "(int \<times> teacher) list"
  classes_by_semester :: "semester list"
  slots :: "slot list"

text \<open>\<open>Class_.contains_teacher\<close>: membership of the teacher's id among the class's teachers' ids.\<close>

definition contains_teacher :: "class_ \<Rightarrow> teacher \<Rightarrow> bool" where
  "contains_teacher c t = (teacher_id t \<in> set (map teacher_id (teachers c)))"

section \<open>The linear program handed to the solver\<close>

text \<open>
  A decision variable is identified by its name: \<open>{semester.id}_X_{i},{j}\<close> for the cell of
  class row \<open>i\<close> and slot column \<open>j\<close>, and \<open>{semester.id}_Z_{i},{j},{k}\<close> for the indicator of
  the window of row \<open>i\<close> that starts at \<open>j\<close> (\<open>k\<close> is the value the loop variable \<open>k\<close> holds when
  the name is formatted). All of them are made by \<open>utils.create_binary_variable\<close>: integer,
  bounds 0 and 1.
\<close>

datatype var = XVar int nat nat | ZVar int nat nat int

text \<open>
  An affine expression is a list of terms (coefficient, variable) and a constant. A plain
  Python number \<open>c\<close> is the expression with no term and constant \<open>c\<close>: the accumulators of the
  source start as the number \<open>0\<close> and become expressions when the first variable is added.
  Coefficients are rationals and \<open>div_expr\<close> divides them exactly: this is the arithmetic the
  encoding is written for. The solver library divides in floating point; the expression it
  really stores is \<open>div_expr_float\<close> below.
\<close>

datatype expr = Expr "(rat \<times> var) list" rat

fun is_number :: "expr \<Rightarrow> bool" where
  "is_number (Expr ts c) = (ts = [])"

definition number :: "rat \<Rightarrow> expr" where
  "number c = Expr [] c"

definition var_expr :: "var \<Rightarrow> expr" where
  "var_expr v = Expr [(1, v)] 0"

fun add_var :: "expr \<Rightarrow> var \<Rightarrow> expr" where
  "add_var (Expr ts c) v = Expr (ts @ [(1, v)]) c"

fun add_expr :: "expr \<Rightarrow> expr \<Rightarrow> expr" where
  "add_expr (Expr ts c) (Expr us d) = Expr (ts @ us) (c + d)"

fun add_const :: "expr \<Rightarrow> rat \<Rightarrow> expr" where
  "add_const (Expr ts c) d = Expr ts (c + d)"

fun neg_expr :: "expr \<Rightarrow> expr" where
  "neg_expr (Expr ts c) = Expr (map (\<lambda>(q, v). (- q, v)) ts) (- c)"

fun div_expr :: "expr \<Rightarrow> int \<Rightarrow> py_error + expr" where
  "div_expr (Expr ts c) k =
     (if k = 0 then Inl ZeroDivisionError
      else Inr (Expr (map (\<lambda>(q, v). (q / of_int k, v)) ts) (c / of_int k)))"




datatype cmp = LE | GE | EQ

fun cmp_holds :: "cmp \<Rightarrow> rat \<Rightarrow> rat \<Rightarrow> bool" where
  "cmp_holds LE x y = (x \<le> y)"
| "cmp_holds GE x y = (x \<ge> y)"
| "cmp_holds EQ x y = (x = y)"

text \<open>
  What the source passes to \<open>model += ...\<close>: a comparison with an expression on one side is a
  constraint; a comparison of two plain numbers is decided by Python on the spot and what
  reaches the model is its truth value.
\<close>

datatype item = Constraint expr cmp expr | PyBool bool

fun const_of :: "expr \<Rightarrow> rat" where
  "const_of (Expr ts c) = c"

definition compare :: "expr \<Rightarrow> cmp \<Rightarrow> expr \<Rightarrow> item" where
  "compare l op r =
     (if is_number l \<and> is_number r then PyBool (cmp_holds op (const_of l) (const_of r))
      else Constraint l op r)"

text \<open>
  An assignment gives every binary variable one of its two values. An item holds under an
  assignment when the constraint is satisfied; a truth value holds when it is \<open>True\<close>.
\<close>

type_synonym assignment = "var \<Rightarrow> bool"

fun eval :: "assignment \<Rightarrow> expr \<Rightarrow> rat" where
  "eval a (Expr ts c) = (\<Sum>(q, v)\<leftarrow>ts. q * of_bool (a v)) + c"

fun holds :: "assignment \<Rightarrow> item \<Rightarrow> bool" where
  "holds a (Constraint l op r) = cmp_holds op (eval a l) (eval a r)"
| "holds a (PyBool b) = b"

definition feasible :: "assignment \<Rightarrow> item list \<Rightarrow> bool" where
  "feasible a model = list_all (holds a) model"

text \<open>
  \<open>model += item\<close> on the solver library's \<open>LpProblem\<close>: a constraint is added to the model,
  \<open>True\<close> leaves the model as it is and \<open>False\<close> raises \<open>TypeError\<close>. The row-sum and the
  consecutive-slots builders, whose comparisons of two numbers can be \<open>False\<close>, add their
  items through it. In the group-limit and the teacher builders such a comparison is always
  \<open>0 <= 1\<close>; there the truth value \<open>True\<close> is kept in the list, as an item that always holds.
\<close>

definition model_add :: "item list \<Rightarrow> item \<Rightarrow> py_error + item list" where
  "model_add model it =
     (case it of
        Constraint l op r \<Rightarrow> Inr (model @ [it])
      | PyBool b \<Rightarrow> (if b then Inr model else Inl TypeError))"

section \<open>utils.py\<close>

text \<open>
  \<open>constants.NUMBER_OF_CLASS_DAYS\<close> is defined in a module that is not part of the sources;
  it is the parameter \<open>days\<close>. Python's \<open>//\<close> and \<open>%\<close> on integers are \<open>div\<close> and \<open>mod\<close> on \<open>int\<close>.
\<close>

definition get_slot_count_per_day' :: "int \<Rightarrow> int \<Rightarrow> py_error + int" where
  "get_slot_count_per_day' days slot_count_total =
     (if days = 0 then Inl ZeroDivisionError else Inr (slot_count_total div days))"

definition get_slot_count_per_day :: "int \<Rightarrow> storage \<Rightarrow> py_error + int" where
  "get_slot_count_per_day days st = get_slot_count_per_day' days (int (length (slots st)))"

section \<open>SemesterSchedule: the variable matrix\<close>

record semester_schedule =
  semester :: semester
  variables_matrix :: "var list list"

definition create_variables_matrix :: "int \<Rightarrow> nat \<Rightarrow> nat \<Rightarrow> var list list" where
  "create_variables_matrix sid m n = map (\<lambda>i. map (\<lambda>j. XVar sid i j) [0..<n]) [0..<m]"

definition SemesterSchedule :: "semester \<Rightarrow> storage \<Rightarrow> semester_schedule" where
  "SemesterSchedule sem st =
     \<lparr>semester = sem,
      variables_matrix =
        create_variables_matrix (sem_id sem) (length (classes sem)) (length (slots st))\<rparr>"

text \<open>\<open>variables_matrix[i][j]\<close>.\<close>

definition matrix_at :: "var list list \<Rightarrow> nat \<Rightarrow> nat \<Rightarrow> py_error + var" where
  "matrix_at vm i j = pbind (py_index vm (int i)) (\<lambda>row. py_index row (int j))"

text \<open>
  The accumulation loops \<open>x = ...; for ...: x += variables_matrix[r][c]\<close>, over the cells
  \<open>(r, c)\<close> in the order the loop visits them.
\<close>

fun add_cells :: "var list list \<Rightarrow> expr \<Rightarrow> (nat \<times> nat) list \<Rightarrow> py_error + expr" where
  "add_cells vm x [] = Inr x"
| "add_cells vm x ((r, c) # cells) =
     pbind (matrix_at vm r c) (\<lambda>v. add_cells vm (add_var x v) cells)"

text \<open>\<open>len(self.variables_matrix[0])\<close>.\<close>

definition column_count :: "var list list \<Rightarrow> py_error + nat" where
  "column_count vm = pbind (py_index vm 0) (\<lambda>row. Inr (length row))"

section \<open>Constraint (a): the row sums\<close>

fun match_rows :: "semester_schedule \<Rightarrow> nat list \<Rightarrow> item list \<Rightarrow> py_error + item list" where
  "match_rows ss [] model = Inr model"
| "match_rows ss (i # is) model =
     pbind (column_count (variables_matrix ss)) (\<lambda>n.
     pbind (add_cells (variables_matrix ss) (number 0) (map (\<lambda>j. (i, j)) [0..<n])) (\<lambda>x.
     pbind (py_index (classes (semester ss)) (int i)) (\<lambda>c.
     pbind (model_add model (compare x EQ (number (of_int (slot_count c))))) (\<lambda>model'.
       match_rows ss is model'))))"

definition set_constraints_match_class_slot_count ::
  "semester_schedule \<Rightarrow> item list \<Rightarrow> py_error + item list" where
  "set_constraints_match_class_slot_count ss model =
     match_rows ss [0..<length (variables_matrix ss)] model"

section \<open>Constraint (b): consecutive slots\<close>

text \<open>
  The body of the window loop for row \<open>i\<close>, start \<open>j\<close>, length \<open>csc\<close>, once the day-boundary
  test has let it through. \<open>kloc\<close> is the local variable \<open>k\<close> on entry (unbound before the
  first inner loop that runs). It returns the indicator, the local \<open>k\<close> on exit and the two
  constraints.
\<close>

definition window_body ::
  "int \<Rightarrow> var list list \<Rightarrow> nat \<Rightarrow> int \<Rightarrow> nat \<Rightarrow> int option \<Rightarrow>
     py_error + (var \<times> int option \<times> item list)" where
  "window_body sid vm i csc j kloc =
     pbind (add_cells vm (number 0) (map (\<lambda>k. (i, k)) (py_range j (int j + csc)))) (\<lambda>x.
       let kloc' = (if 1 \<le> csc then Some (int j + csc - 1) else kloc) in
       case kloc' of
         None \<Rightarrow> Inl NameError
       | Some k \<Rightarrow>
           let z = ZVar sid i j k in
           pbind (div_expr x csc) (\<lambda>q.
             Inr (z, kloc',
                  [Constraint (var_expr z) LE q,
                   Constraint (var_expr z) GE (add_const (add_const x (- of_int csc)) 1)])))"


fun window_loop ::
  "int \<Rightarrow> var list list \<Rightarrow> int \<Rightarrow> nat \<Rightarrow> int \<Rightarrow> nat list \<Rightarrow> expr \<times> int option \<times> item list \<Rightarrow>
     py_error + (expr \<times> int option \<times> item list)" where
  "window_loop sid vm spd i csc [] st = Inr st"
| "window_loop sid vm spd i csc (j # js) (Z, kloc, model) =
     (if spd = 0 then Inl ZeroDivisionError
      else if int j mod spd > spd - csc then window_loop sid vm spd i csc js (Z, kloc, model)
      else pbind (window_body sid vm i csc j kloc) (\<lambda>(z, kloc', cs).
             window_loop sid vm spd i csc js (add_var Z z, kloc', model @ cs)))"

fun consecutive_rows ::
  "semester_schedule \<Rightarrow> int \<Rightarrow> nat list \<Rightarrow> int option \<times> item list \<Rightarrow>
     py_error + (int option \<times> item list)" where
  "consecutive_rows ss spd [] st = Inr st"
| "consecutive_rows ss spd (i # is) (kloc, model) =
     pbind (py_index (classes (semester ss)) (int i)) (\<lambda>c.
     pbind (column_count (variables_matrix ss)) (\<lambda>n.
     pbind (window_loop (sem_id (semester ss)) (variables_matrix ss) spd i (slot_count c)
              (py_range 0 (int n - slot_count c + 1)) (number 0, kloc, model)) (\<lambda>(Z, kloc', model').
     pbind (model_add model' (compare Z EQ (number 1))) (\<lambda>model''.
       consecutive_rows ss spd is (kloc', model'')))))"

definition set_constraints_consecutive_slots ::
  "int \<Rightarrow> storage \<Rightarrow> semester_schedule \<Rightarrow> item list \<Rightarrow> py_error + item list" where
  "set_constraints_consecutive_slots days st ss model =
     pbind (get_slot_count_per_day days st) (\<lambda>spd.
     pbind (consecutive_rows ss spd [0..<length (variables_matrix ss)] (None, model)) (\<lambda>(kloc, model').
       Inr model'))"

section \<open>Specification vocabulary\<close>

definition unit_terms :: "var list \<Rightarrow> (rat \<times> var) list" where
  "unit_terms vs = map (\<lambda>v. (1, v)) vs"

definition count_true :: "assignment \<Rightarrow> var list \<Rightarrow> nat" where
  "count_true a vs = length (filter a vs)"

definition window_vars :: "int \<Rightarrow> nat \<Rightarrow> nat \<Rightarrow> int \<Rightarrow> var list" where
  "window_vars sid i j k = map (\<lambda>t. XVar sid i t) [j ..< j + nat k]"

definition zvar :: "int \<Rightarrow> nat \<Rightarrow> int \<Rightarrow> nat \<Rightarrow> var" where
  "zvar sid i k j = ZVar sid i j (int j + k - 1)"

definition window_items :: "int \<Rightarrow> nat \<Rightarrow> int \<Rightarrow> nat \<Rightarrow> item list" where
  "window_items sid i k j =
     [Constraint (var_expr (zvar sid i k j)) LE
        (Expr (map (\<lambda>(q, v). (q / of_int k, v)) (unit_terms (window_vars sid i j k))) (0 / of_int k)),
      Constraint (var_expr (zvar sid i k j)) GE
        (Expr (unit_terms (window_vars sid i j k)) (0 + - of_int k + 1))]"

definition valid_start :: "int \<Rightarrow> int \<Rightarrow> nat \<Rightarrow> bool" where
  "valid_start spd k j = (\<not> int j mod spd > spd - k)"

definition valid_starts :: "nat \<Rightarrow> int \<Rightarrow> int \<Rightarrow> nat list" where
  "valid_starts n spd k = filter (valid_start spd k) (py_range 0 (int n - k + 1))"

definition consecutive_row_items :: "int \<Rightarrow> nat \<Rightarrow> int \<Rightarrow> nat \<Rightarrow> int \<Rightarrow> item list" where
  "consecutive_row_items sid n spd i k =
     concat (map (window_items sid i k) (valid_starts n spd k)) @
     [compare (Expr (unit_terms (map (zvar sid i k) (valid_starts n spd k))) 0) EQ (number 1)]"

definition match_row_item :: "int \<Rightarrow> nat \<Rightarrow> nat \<Rightarrow> int \<Rightarrow> item" where
  "match_row_item sid n i k =
     compare (Expr (unit_terms (map (\<lambda>j. XVar sid i j) [0..<n])) 0) EQ (number (of_int k))"

text \<open>
  \<open>_get_objective_function_unallocated_class_slots\<close>: the sum of all cells, negated.
\<close>

fun objective_rows :: "var list list \<Rightarrow> nat list \<Rightarrow> expr \<Rightarrow> py_error + expr" where
  "objective_rows vm [] x = Inr x"
| "objective_rows vm (i # is) x =
     pbind (column_count vm) (\<lambda>n.
     pbind (add_cells vm x (map (\<lambda>j. (i, j)) [0..<n])) (\<lambda>x'.
       objective_rows vm is x'))"

definition get_objective_function_unallocated_class_slots :: "semester_schedule \<Rightarrow> py_error + expr" where
  "get_objective_function_unallocated_class_slots ss =
     pbind (objective_rows (variables_matrix ss) [0..<length (variables_matrix ss)] (number 0))
       (\<lambda>x. Inr (neg_expr x))"

definition row_vars :: "int \<Rightarrow> nat \<Rightarrow> nat \<Rightarrow> var list" where
  "row_vars sid n i = map (\<lambda>j. XVar sid i j) [0..<n]"

section \<open>The global constraint (main.py)\<close>

text \<open>
  \<open>set_global_constraints\<close>: for every teacher and every slot, the sum over all semester
  schedules of the cells, at that slot, of the classes that contain the teacher is at most 1.
\<close>

fun teacher_sum :: "teacher \<Rightarrow> nat \<Rightarrow> semester_schedule list \<Rightarrow> expr \<Rightarrow> py_error + expr" where
  "teacher_sum t i [] x = Inr x"
| "teacher_sum t i (ss # sss) x =
     pbind (add_cells (variables_matrix ss) x
              (map (\<lambda>(j, c). (j, i))
                 (filter (\<lambda>(j, c). contains_teacher c t) (enumerate 0 (classes (semester ss))))))
       (\<lambda>x'. teacher_sum t i sss x')"

fun global_slots ::
  "teacher \<Rightarrow> semester_schedule list \<Rightarrow> nat list \<Rightarrow> item list \<Rightarrow> py_error + item list" where
  "global_slots t sss [] model = Inr model"
| "global_slots t sss (i # is) model =
     pbind (teacher_sum t i sss (number 0)) (\<lambda>x.
       global_slots t sss is (model @ [compare x LE (number 1)]))"

fun global_teachers ::
  "storage \<Rightarrow> semester_schedule list \<Rightarrow> teacher list \<Rightarrow> item list \<Rightarrow> py_error + item list" where
  "global_teachers st sss [] model = Inr model"
| "global_teachers st sss (t # ts) model =
     pbind (global_slots t sss [0..<length (slots st)] model) (\<lambda>model'.
       global_teachers st sss ts model')"

definition set_global_constraints ::
  "storage \<Rightarrow> semester_schedule list \<Rightarrow> item list \<Rightarrow> py_error + item list" where
  "set_global_constraints st sss model = global_teachers st sss (map snd (st_teachers st)) model"

definition teacher_rows :: "teacher \<Rightarrow> class_ list \<Rightarrow> nat list" where
  "teacher_rows t cs = filter (\<lambda>j. contains_teacher (cs ! j) t) [0..<length cs]"

definition teacher_vars :: "semester list \<Rightarrow> teacher \<Rightarrow> nat \<Rightarrow> var list" where
  "teacher_vars sems t i =
     concat (map (\<lambda>sem. map (\<lambda>j. XVar (sem_id sem) j i) (teacher_rows t (classes sem))) sems)"

definition teacher_item :: "semester list \<Rightarrow> teacher \<Rightarrow> nat \<Rightarrow> item" where
  "teacher_item sems t i = compare (Expr (unit_terms (teacher_vars sems t i)) 0) LE (number 1)"

section \<open>Constraint (c): class limits per slot\<close>

text \<open>\<open>Semester.common_group\<close> is \<open>self.groups[0]\<close>, \<open>Semester.non_common_groups\<close> is \<open>self.groups[1:]\<close>.\<close>

definition common_group :: "semester \<Rightarrow> py_error + group" where
  "common_group sem = py_index (groups sem) 0"

definition non_common_groups :: "semester \<Rightarrow> group list" where
  "non_common_groups sem = drop 1 (groups sem)"

fun group_loop ::
  "var list list \<Rightarrow> nat \<Rightarrow> expr \<Rightarrow> group list \<Rightarrow> nat \<times> item list \<Rightarrow> py_error + (nat \<times> item list)" where
  "group_loop vm i common [] st = Inr st"
| "group_loop vm i common (g # gs) (offset, model) =
     pbind (add_cells vm (number 0) (map (\<lambda>j. (offset + j, i)) [0..<length (gclasses g)])) (\<lambda>gv.
       group_loop vm i common gs
         (offset + length (gclasses g), model @ [compare (add_expr common gv) LE (number 1)]))"

fun slot_loop :: "semester_schedule \<Rightarrow> nat list \<Rightarrow> item list \<Rightarrow> py_error + item list" where
  "slot_loop ss [] model = Inr model"
| "slot_loop ss (i # is) model =
     pbind (common_group (semester ss)) (\<lambda>cg.
     pbind (add_cells (variables_matrix ss) (number 0)
              (map (\<lambda>j. (j, i)) [0..<length (gclasses cg)])) (\<lambda>common.
       if non_common_groups (semester ss) = []
       then slot_loop ss is (model @ [compare common LE (number 1)])
       else pbind (group_loop (variables_matrix ss) i common (non_common_groups (semester ss))
                     (length (gclasses cg), model)) (\<lambda>(offset, model').
              slot_loop ss is model')))"

definition set_constraints_class_limits_per_slot ::
  "semester_schedule \<Rightarrow> item list \<Rightarrow> py_error + item list" where
  "set_constraints_class_limits_per_slot ss model =
     pbind (column_count (variables_matrix ss)) (\<lambda>n. slot_loop ss [0..<n] model)"

text \<open>
  The rows of group number \<open>q\<close> in a matrix whose rows are the groups' classes one group
  after the other, and the variables of some rows at slot \<open>i\<close>.
\<close>

definition group_offset :: "group list \<Rightarrow> nat \<Rightarrow> nat" where
  "group_offset gs q = sum_list (map (\<lambda>g. length (gclasses g)) (take q gs))"

definition group_rows :: "group list \<Rightarrow> nat \<Rightarrow> nat list" where
  "group_rows gs q = [group_offset gs q ..< group_offset gs q + length (gclasses (gs ! q))]"

definition col_vars :: "int \<Rightarrow> nat \<Rightarrow> nat list \<Rightarrow> var list" where
  "col_vars sid i rows = map (\<lambda>j. XVar sid j i) rows"

definition limit_item :: "int \<Rightarrow> nat \<Rightarrow> nat list \<Rightarrow> item" where
  "limit_item sid i rows = compare (Expr (unit_terms (col_vars sid i rows)) 0) LE (number 1)"

definition slot_items :: "semester \<Rightarrow> nat \<Rightarrow> item list" where
  "slot_items sem i =
     (if length (groups sem) \<le> 1 then [limit_item (sem_id sem) i (group_rows (groups sem) 0)]
      else map (\<lambda>q. limit_item (sem_id sem) i (group_rows (groups sem) 0 @ group_rows (groups sem) q))
             [1..<length (groups sem)])"

section \<open>The schedule extractor\<close>

text \<open>
  \<open>math.isclose(a, b)\<close> with its default tolerances \<open>rel_tol = 1e-09\<close> and \<open>abs_tol = 0.0\<close>, as
  the Python documentation defines it. Solver values are modelled as rationals (every finite
  float is one); a solution gives each variable its \<open>varValue\<close>.
\<close>

definition rel_tol :: rat where
  "rel_tol = 1 / 1000000000"

definition abs_tol :: rat where
  "abs_tol = 0"

definition isclose :: "rat \<Rightarrow> rat \<Rightarrow> bool" where
  "isclose a b = (\<bar>a - b\<bar> \<le> max (rel_tol * max \<bar>a\<bar> \<bar>b\<bar>) abs_tol)"

text \<open>\<open>is_variable_true = not math.isclose(varValue, 0)\<close>.\<close>

definition is_variable_true :: "rat \<Rightarrow> bool" where
  "is_variable_true v = (\<not> isclose v 0)"

type_synonym solution = "var \<Rightarrow> rat"

record class_schedule =
  cs_class :: class_
  start_slot :: slot
  end_slot :: slot

text \<open>The constructor \<open>ClassSchedule(class_, end_slot_index, slot_count)\<close>.\<close>

definition ClassSchedule :: "storage \<Rightarrow> class_ \<Rightarrow> int \<Rightarrow> int \<Rightarrow> py_error + class_schedule" where
  "ClassSchedule st c end_slot_index cnt =
     pbind (py_index (slots st) (end_slot_index - cnt + 1)) (\<lambda>s.
     pbind (py_index (slots st) end_slot_index) (\<lambda>e.
       Inr \<lparr>cs_class = c, start_slot = s, end_slot = e\<rparr>))"

text \<open>
  The inner loop of \<open>get_class_schedules\<close> over the slot indices of row \<open>i\<close>; the state is
  \<open>slot_count\<close>, \<open>is_previous_variable_true\<close> and the list \<open>class_schedules\<close>.
\<close>

fun scan_row ::
  "storage \<Rightarrow> solution \<Rightarrow> semester_schedule \<Rightarrow> nat \<Rightarrow> nat list \<Rightarrow>
     int \<times> bool \<times> class_schedule list \<Rightarrow> py_error + (int \<times> bool \<times> class_schedule list)" where
  "scan_row st sol ss i [] s = Inr s"
| "scan_row st sol ss i (j # js) (cnt, prev, out) =
     pbind (matrix_at (variables_matrix ss) i j) (\<lambda>v.
     pbind (py_index (classes (semester ss)) (int i)) (\<lambda>c.
       let t = is_variable_true (sol v);
           cnt' = (if t then cnt + 1 else cnt)
       in if prev \<and> \<not> t
          then pbind (ClassSchedule st c (int j - 1) cnt') (\<lambda>b.
                 scan_row st sol ss i js (0, t, out @ [b]))
          else if t \<and> int j = int (length (slots st)) - 1
          then pbind (ClassSchedule st c (int (length (slots st)) - 1) cnt') (\<lambda>b.
                 scan_row st sol ss i js (cnt', t, out @ [b]))
          else scan_row st sol ss i js (cnt', t, out)))"

fun scan_rows ::
  "storage \<Rightarrow> solution \<Rightarrow> semester_schedule \<Rightarrow> nat list \<Rightarrow> class_schedule list \<Rightarrow>
     py_error + class_schedule list" where
  "scan_rows st sol ss [] out = Inr out"
| "scan_rows st sol ss (i # is) out =
     pbind (scan_row st sol ss i [0..<length (slots st)] (0, False, out)) (\<lambda>(cnt, prev, out').
       scan_rows st sol ss is out')"

definition get_class_schedules ::
  "storage \<Rightarrow> solution \<Rightarrow> semester_schedule \<Rightarrow> py_error + class_schedule list" where
  "get_class_schedules st sol ss =
     pbind (scan_rows st sol ss [0..<length (classes (semester ss))] []) (\<lambda>out.
       Inr (sort_key (\<lambda>b. slot_id (start_slot b)) out))"

definition block :: "storage \<Rightarrow> class_ \<Rightarrow> nat \<Rightarrow> nat \<Rightarrow> class_schedule" where
  "block st c s e = \<lparr>cs_class = c, start_slot = slots st ! s, end_slot = slots st ! e\<rparr>"

definition cell_true :: "solution \<Rightarrow> int \<Rightarrow> nat \<Rightarrow> nat \<Rightarrow> bool" where
  "cell_true sol sid i j = is_variable_true (sol (XVar sid i j))"

text \<open>\<open>SemesterSchedule.set_constraints\<close>: the three builders, in order, on the same model.\<close>

definition set_constraints ::
  "int \<Rightarrow> storage \<Rightarrow> semester_schedule \<Rightarrow> item list \<Rightarrow> py_error + item list" where
  "set_constraints days st ss model =
     pbind (set_constraints_match_class_slot_count ss model) (\<lambda>model1.
     pbind (set_constraints_consecutive_slots days st ss model1) (\<lambda>model2.
       set_constraints_class_limits_per_slot ss model2))"

section \<open>Semester.init_groups and Semester.sort_classes\<close>

text \<open>
  The two dictionaries of \<open>init_groups\<close> are association lists in insertion order:
  assigning to a key replaces the value where the key stands, or appends a new key.
  \<open>groups[k].classes.append(c)\<close> changes the group object stored under \<open>k\<close>.
  \<open>sorted\<close> and \<open>list.sort\<close> are stable, as \<open>sort_key\<close> is; strings are compared character by
  character, by character code.
\<close>

definition Group :: "int \<Rightarrow> string \<Rightarrow> group" where
  "Group i nm = \<lparr>group_id = i, gname = nm, gclasses = []\<rparr>"

definition dict_get :: "('k \<times> 'v) list \<Rightarrow> 'k \<Rightarrow> py_error + 'v" where
  "dict_get d k = (case map_of d k of None \<Rightarrow> Inl KeyError | Some v \<Rightarrow> Inr v)"

type_synonym init_state = "(int \<times> group) list \<times> (string \<times> int) list \<times> int"

definition init_groups_step :: "class_ \<Rightarrow> init_state \<Rightarrow> py_error + init_state" where
  "init_groups_step c s =
     (case s of (gs, identifiers, next_id) \<Rightarrow>
        (case (if group_name c \<notin> set (map fst identifiers)
               then (AList.update next_id (Group next_id (group_name c)) gs,
                     AList.update (group_name c) next_id identifiers, next_id + 1)
               else (gs, identifiers, next_id))
         of (gs', identifiers', next_id') \<Rightarrow>
           pbind (dict_get identifiers' (group_name c)) (\<lambda>gid.
           pbind (dict_get gs' gid) (\<lambda>g.
             Inr (AList.update gid (g\<lparr>gclasses := gclasses g @ [c]\<rparr>) gs',
                  identifiers', next_id')))))"

fun init_groups_loop :: "class_ list \<Rightarrow> init_state \<Rightarrow> py_error + init_state" where
  "init_groups_loop [] s = Inr s"
| "init_groups_loop (c # cs) s = pbind (init_groups_step c s) (init_groups_loop cs)"

definition init_groups :: "semester \<Rightarrow> py_error + semester" where
  "init_groups sem =
     pbind (init_groups_loop (classes sem) ([(1, Group 1 '''')], [('''', 1)], 2))
       (\<lambda>(gs, identifiers, next_id).
          pbind (py_index (map snd gs) 0) (\<lambda>g0.
            Inr (sem\<lparr>groups := [g0] @ sort_key gname (drop 1 (map snd gs))\<rparr>)))"

text \<open>\<open>Group.sort_classes\<close> and \<open>Semester.sort_classes\<close>.\<close>

definition group_sort_classes :: "group \<Rightarrow> group" where
  "group_sort_classes g = g\<lparr>gclasses := sort_key class_name (gclasses g)\<rparr>"

fun sort_classes_loop :: "group list \<Rightarrow> group list \<times> class_ list \<Rightarrow> group list \<times> class_ list" where
  "sort_classes_loop [] acc = acc"
| "sort_classes_loop (g # gs) (sorted_groups, cs) =
     sort_classes_loop gs
       (sorted_groups @ [group_sort_classes g], cs @ gclasses (group_sort_classes g))"

definition sort_classes :: "semester \<Rightarrow> semester" where
  "sort_classes sem =
     (case sort_classes_loop (groups sem) ([], []) of
        (gs, cs) \<Rightarrow> sem\<lparr>groups := gs, classes := cs\<rparr>)"

text \<open>
  The invariant of the loop of \<open>init_groups\<close> after the classes \<open>seen\<close>: the first entry of
  \<open>groups\<close> is the group of key 1 and name \<open>""\<close>, the keys are distinct and below the next
  identifier, every name in \<open>identifiers\<close> leads to a group of that name, every group holds
  classes of its own name, and the groups hold the classes seen so far.
\<close>

definition groups_inv :: "(int \<times> group) list \<Rightarrow> (string \<times> int) list \<Rightarrow> int \<Rightarrow> class_ list \<Rightarrow> bool" where
  "groups_inv gs identifiers next_id seen \<longleftrightarrow>
     gs \<noteq> [] \<and> fst (hd gs) = 1 \<and> gname (snd (hd gs)) = '''' \<and>
     distinct (map fst gs) \<and> (\<forall>k \<in> set (map fst gs). k < next_id) \<and>
     (\<forall>nm k. map_of identifiers nm = Some k \<longrightarrow> (\<exists>g. map_of gs k = Some g \<and> gname g = nm)) \<and>
     (\<forall>(k, g) \<in> set gs. \<forall>c \<in> set (gclasses g). group_name c = gname g) \<and>
     mset (concat (map (\<lambda>(k, g). gclasses g) gs)) = mset seen"

section \<open>Concrete inputs\<close>

definition ex_class :: "string \<Rightarrow> string \<Rightarrow> int \<Rightarrow> teacher list \<Rightarrow> class_" where
  "ex_class nm g k ts = \<lparr>class_id = 1, class_name = nm, group_name = g, slot_count = k, teachers = ts\<rparr>"
definition ex_slot :: "int \<Rightarrow> slot" where
  "ex_slot i = \<lparr>slot_id = i, weekday = 1, start_time = '''', end_time = '''', is_lunch_break = False, is_evening = False\<rparr>"
definition ex_sem1 :: semester where
  "ex_sem1 = \<lparr>sem_id = 1, sem_name = ''S'', classes = [ex_class ''A'' '''' 2 []], groups = []\<rparr>"
definition ex_storage3 :: storage where
  "ex_storage3 = \<lparr>st_teachers = [], classes_by_semester = [], slots = [ex_slot 1, ex_slot 2, ex_slot 3]\<rparr>"
definition ex_assignment1 :: assignment where
  "ex_assignment1 v = (v \<in> set [XVar 1 0 1, XVar 1 0 2, ZVar 1 0 1 2])"

definition ex_assignment2 :: assignment where
  "ex_assignment2 v = (v \<in> set [XVar 1 0 0, XVar 1 0 1, ZVar 1 0 0 1])"

definition ex_teacher :: "int \<Rightarrow> teacher" where
  "ex_teacher i = \<lparr>teacher_id = i, last_name = ''T'', first_name = ''t'', slot_preferences = []\<rparr>"

definition ex_sem2 :: semester where
  "ex_sem2 = \<lparr>sem_id = 2, sem_name = ''S2'',
              classes = [ex_class ''B'' '''' 1 [ex_teacher 7], ex_class ''C'' ''g'' 1 [ex_teacher 7]],
              groups = []\<rparr>"

definition ex_sem3 :: semester where
  "ex_sem3 = \<lparr>sem_id = 3, sem_name = ''S3'', classes = [ex_class ''D'' '''' 1 [ex_teacher 7]], groups = []\<rparr>"

definition ex_storage_t :: storage where
  "ex_storage_t = \<lparr>st_teachers = [(7, ex_teacher 7)], classes_by_semester = [ex_sem2, ex_sem3],
                   slots = [ex_slot 1, ex_slot 2]\<rparr>"

definition ex_assignment3 :: assignment where
  "ex_assignment3 v = (v \<in> set [XVar 2 0 0, XVar 2 1 1])"

definition ex_group :: "int \<Rightarrow> string \<Rightarrow> class_ list \<Rightarrow> group" where
  "ex_group i nm cs = \<lparr>group_id = i, gname = nm, gclasses = cs\<rparr>"

definition ex_sem4 :: semester where
  "ex_sem4 = \<lparr>sem_id = 4, sem_name = ''S4'',
              classes = [ex_class ''A'' '''' 1 [], ex_class ''B'' ''a'' 1 [], ex_class ''C'' ''b'' 1 []],
              groups = [ex_group 1 '''' [ex_class ''A'' '''' 1 []],
                        ex_group 2 ''a'' [ex_class ''B'' ''a'' 1 []],
                        ex_group 3 ''b'' [ex_class ''C'' ''b'' 1 []]]\<rparr>"

definition ex_assignment4 :: assignment where
  "ex_assignment4 v = (v \<in> set [XVar 4 0 1, XVar 4 1 0, XVar 4 2 0])"

definition ex_sem5 :: semester where
  "ex_sem5 = \<lparr>sem_id = 5, sem_name = ''S5'', classes = [ex_class ''A'' '''' 3 []], groups = []\<rparr>"

definition ex_storage10 :: storage where
  "ex_storage10 = \<lparr>st_teachers = [], classes_by_semester = [], slots = map ex_slot [1, 2, 3, 4, 5, 6, 7, 8, 9, 10]\<rparr>"

definition ex_solution345 :: solution where
  "ex_solution345 v = (if v \<in> set [XVar 5 0 3, XVar 5 0 4, XVar 5 0 5] then 1 else 0)"

definition ex_solution101 :: solution where
  "ex_solution101 v = (if v \<in> set [XVar 1 0 0, XVar 1 0 2] then 1 else 0)"

definition ex_sem6 :: semester where
  "ex_sem6 = \<lparr>sem_id = 6, sem_name = ''S6'', classes = [ex_class ''A'' '''' 1 []],
              groups = [ex_group 1 '''' [ex_class ''A'' '''' 1 []]]\<rparr>"

definition ex_sem7 :: semester where
  "ex_sem7 = \<lparr>sem_id = 7, sem_name = ''S7'', classes = [ex_class ''A'' '''' 3 []],
              groups = [ex_group 1 '''' [ex_class ''A'' '''' 3 []]]\<rparr>"

definition ex_assignment6 :: assignment where
  "ex_assignment6 v = (v \<in> set [XVar 6 0 0, ZVar 6 0 0 0])"

definition ex_sem8 :: semester where
  "ex_sem8 = \<lparr>sem_id = 8, sem_name = ''S8'',
              classes = [ex_class ''y'' ''b'' 1 [], ex_class ''x'' ''a'' 1 [], ex_class ''a'' ''b'' 1 []],
              groups = []\<rparr>"

section \<open>Auxiliary lemmas\<close>

lemma py_index_nat:
  "py_index xs (int i) = (if i < length xs then Inr (xs ! i) else Inl IndexError)"
  by (simp add: py_index_def)

lemma py_index_zero:
  "py_index xs 0 = (if xs = [] then Inl IndexError else Inr (xs ! 0))"
  using py_index_nat [of xs 0] by simp

lemma matrix_at_create:
  "matrix_at (create_variables_matrix sid m n) i j =
     (if i < m \<and> j < n then Inr (XVar sid i j) else Inl IndexError)"
  by (simp add: matrix_at_def create_variables_matrix_def py_index_nat)

lemma column_count_create:
  "column_count (create_variables_matrix sid m n) = (if m = 0 then Inl IndexError else Inr n)"
  by (simp add: column_count_def create_variables_matrix_def py_index_zero upt_conv_Cons)

lemma length_create [simp]: "length (create_variables_matrix sid m n) = m"
  by (simp add: create_variables_matrix_def)

lemma add_cells_create:
  "\<forall>(r, c) \<in> set cells. r < m \<and> c < n \<Longrightarrow>
   add_cells (create_variables_matrix sid m n) (Expr ts c0) cells =
     Inr (Expr (ts @ unit_terms (map (\<lambda>(r, c). XVar sid r c) cells)) c0)"
proof (induction cells arbitrary: ts)
  case Nil
  then show ?case by (simp add: unit_terms_def)
next
  case (Cons rc cells)
  obtain r c where rc: "rc = (r, c)" by (cases rc)
  from Cons.prems rc have "r < m" "c < n" by auto
  moreover from Cons.prems have "\<forall>(r, c) \<in> set cells. r < m \<and> c < n" by simp
  ultimately show ?case
    using Cons.IH [of "ts @ [(1, XVar sid r c)]"]
    by (simp add: rc matrix_at_create unit_terms_def)
qed

lemma sum_unit_terms:
  "(\<Sum>(q, v)\<leftarrow>unit_terms vs. q * of_bool (a v)) = (of_nat (count_true a vs) :: rat)"
  by (induction vs) (simp_all add: unit_terms_def count_true_def)

lemma eval_unit_terms: "eval a (Expr (unit_terms vs) c) = of_nat (count_true a vs) + c"
  by (simp add: sum_unit_terms)

lemma eval_div:
  "eval a (Expr (map (\<lambda>(q, v). (q / d, v)) ts) (c / d)) = eval a (Expr ts c) / d"
  by (induction ts) (auto simp: add_divide_distrib)

lemma count_true_le: "count_true a vs \<le> length vs"
  by (simp add: count_true_def)

lemma count_true_full: "count_true a vs = length vs \<longleftrightarrow> (\<forall>v \<in> set vs. a v)"
  unfolding count_true_def
  by (metis filter_id_conv length_filter_less nat_neq_iff)

lemma indicator_arith:
  fixes k :: int and cnt :: nat
  assumes "1 \<le> k" "int cnt \<le> k"
  shows "((of_bool z :: rat) \<le> of_nat cnt / of_int k \<and> (of_bool z :: rat) \<ge> of_nat cnt + - of_int k + 1)
           \<longleftrightarrow> (z \<longleftrightarrow> int cnt = k)"
proof (cases z)
  case True
  have "(1::rat) \<le> of_nat cnt / of_int k \<longleftrightarrow> (of_int k :: rat) \<le> of_nat cnt"
    using assms by (simp add: le_divide_eq)
  also have "\<dots> \<longleftrightarrow> k \<le> int cnt"
    by (metis of_int_le_iff of_int_of_nat_eq)
  finally show ?thesis using True assms by auto
next
  case False
  have "(of_nat cnt + - of_int k + 1 \<le> (0::rat)) \<longleftrightarrow> (of_int (int cnt - k + 1) :: rat) \<le> of_int 0"
    by simp
  also have "\<dots> \<longleftrightarrow> int cnt - k + 1 \<le> 0"
    by (simp only: of_int_le_iff)
  finally show ?thesis using False assms by auto
qed

lemma window_body_create:
  assumes "1 \<le> k" "i < m" "int j + k \<le> int n"
  shows "window_body sid (create_variables_matrix sid m n) i k j kloc =
           Inr (ZVar sid i j (int j + k - 1), Some (int j + k - 1),
                [Constraint (var_expr (ZVar sid i j (int j + k - 1))) LE
                   (Expr (map (\<lambda>(q, v). (q / of_int k, v)) (unit_terms (window_vars sid i j k))) (0 / of_int k)),
                 Constraint (var_expr (ZVar sid i j (int j + k - 1))) GE
                   (Expr (unit_terms (window_vars sid i j k)) (0 + - of_int k + 1))])"
proof -
  have r: "py_range j (int j + k) = [j ..< j + nat k]"
    using assms(1) by (simp add: py_range_def nat_add_distrib)
  have inr: "\<forall>(r, c) \<in> set (map (\<lambda>t. (i, t)) [j ..< j + nat k]). r < m \<and> c < n"
    using assms by auto
  have cells: "map (\<lambda>(r, c). XVar sid r c) (map (\<lambda>t. (i, t)) [j ..< j + nat k]) = window_vars sid i j k"
    by (simp add: window_vars_def)
  have ac: "add_cells (create_variables_matrix sid m n) (number 0) (map (\<lambda>t. (i, t)) [j ..< j + nat k])
            = Inr (Expr (unit_terms (window_vars sid i j k)) 0)"
    using add_cells_create [OF inr, of sid "[]" 0] by (simp add: number_def window_vars_def comp_def)
  show ?thesis
    using assms(1) by (simp add: window_body_def r ac Let_def)
qed

lemma eval_number: "eval a (number c) = c"
  by (simp add: number_def)

lemma eval_var_expr: "eval a (var_expr z) = of_bool (a z)"
  by (simp add: var_expr_def)

lemma window_body_items:
  assumes "1 \<le> k" "i < m" "int j + k \<le> int n"
  shows "window_body sid (create_variables_matrix sid m n) i k j kloc =
           Inr (zvar sid i k j, Some (int j + k - 1), window_items sid i k j)"
  using window_body_create [OF assms, of sid kloc] by (simp add: zvar_def window_items_def)

lemma window_items_sem:
  assumes "1 \<le> k"
  shows "list_all (holds a) (window_items sid i k j) \<longleftrightarrow>
           (a (zvar sid i k j) \<longleftrightarrow> (\<forall>t \<in> {j ..< j + nat k}. a (XVar sid i t)))"
proof -
  let ?z = "zvar sid i k j"
  let ?vs = "window_vars sid i j k"
  let ?c1 = "Constraint (var_expr ?z) LE
               (Expr (map (\<lambda>(q, v). (q / of_int k, v)) (unit_terms ?vs)) (0 / of_int k))"
  let ?c2 = "Constraint (var_expr ?z) GE (Expr (unit_terms ?vs) (0 + - of_int k + 1))"
  let ?cnt = "count_true a ?vs"
  have len: "int (length ?vs) = k" using assms(1) by (simp add: window_vars_def)
  have le: "int ?cnt \<le> k" using count_true_le [of a ?vs] len by linarith
  have e1: "eval a (Expr (map (\<lambda>(q, v). (q / of_int k, v)) (unit_terms ?vs)) (0 / of_int k))
              = of_nat ?cnt / of_int k"
    using eval_div [of a "of_int k" "unit_terms ?vs" 0] eval_unit_terms [of a ?vs 0]
    by (simp del: eval.simps)
  have e2: "eval a (Expr (unit_terms ?vs) (0 + - of_int k + 1)) = of_nat ?cnt + - of_int k + 1"
    by (simp add: eval_unit_terms del: eval.simps)
  have "list_all (holds a) (window_items sid i k j) \<longleftrightarrow> (holds a ?c1 \<and> holds a ?c2)"
    by (simp add: window_items_def)
  also have "\<dots> \<longleftrightarrow>
        ((of_bool (a ?z) :: rat) \<le> of_nat ?cnt / of_int k \<and>
         (of_bool (a ?z) :: rat) \<ge> of_nat ?cnt + - of_int k + 1)"
    by (simp only: holds.simps cmp_holds.simps eval_var_expr e1 e2)
  also have "\<dots> \<longleftrightarrow> (a ?z \<longleftrightarrow> int ?cnt = k)"
    by (rule indicator_arith [OF assms(1) le])
  also have "int ?cnt = k \<longleftrightarrow> ?cnt = length ?vs" using len by linarith
  also have "?cnt = length ?vs \<longleftrightarrow> (\<forall>t \<in> {j ..< j + nat k}. a (XVar sid i t))"
    using count_true_full [of a ?vs] by (simp add: window_vars_def)
  finally show ?thesis .
qed

lemma window_loop_create:
  assumes "1 \<le> k" "i < m" "\<forall>j \<in> set js. int j + k \<le> int n" "spd \<noteq> 0 \<or> js = []"
  shows "\<exists>kl. window_loop sid (create_variables_matrix sid m n) spd i k js (Expr zs c, kloc, model) =
           Inr (Expr (zs @ unit_terms (map (zvar sid i k) (filter (valid_start spd k) js))) c, kl,
                model @ concat (map (window_items sid i k) (filter (valid_start spd k) js)))"
  using assms(3,4)
proof (induction js arbitrary: zs kloc model)
  case Nil
  then show ?case by (simp add: unit_terms_def)
next
  case (Cons j js)
  from Cons.prems have spd: "spd \<noteq> 0" by simp
  from Cons.prems have fit: "int j + k \<le> int n" and rest: "\<forall>j \<in> set js. int j + k \<le> int n" by auto
  show ?case
  proof (cases "valid_start spd k j")
    case False
    then show ?thesis
      using Cons.IH [OF rest, of zs kloc model] spd by (simp add: valid_start_def)
  next
    case True
    then show ?thesis
      using Cons.IH [OF rest, of "zs @ [(1, zvar sid i k j)]" "Some (int j + k - 1)"
                       "model @ window_items sid i k j"] spd
      by (simp add: valid_start_def window_body_items [OF assms(1,2) fit] unit_terms_def)
  qed
qed

lemma window_loop_prefix:
  "window_loop sid vm spd i csc js (Z, kloc, model) = Inr (Z', kl, model') \<Longrightarrow>
   \<exists>ext. model' = model @ ext"
proof (induction js arbitrary: Z kloc model)
  case Nil
  then show ?case by simp
next
  case (Cons j js)
  show ?case
  proof (cases "spd = 0")
    case True
    with Cons.prems show ?thesis by simp
  next
    case spd: False
    show ?thesis
    proof (cases "int j mod spd > spd - csc")
      case True
      with Cons.prems spd have "window_loop sid vm spd i csc js (Z, kloc, model) = Inr (Z', kl, model')"
        by simp
      from Cons.IH [OF this] show ?thesis .
    next
      case False
      show ?thesis
      proof (cases "window_body sid vm i csc j kloc")
        case (Inl e)
        with Cons.prems spd False show ?thesis by simp
      next
        case (Inr r)
        obtain z kloc1 cs where r: "r = (z, kloc1, cs)" by (cases r)
        with Cons.prems spd False Inr
        have "window_loop sid vm spd i csc js (add_var Z z, kloc1, model @ cs) = Inr (Z', kl, model')"
          by simp
        from Cons.IH [OF this] show ?thesis by auto
      qed
    qed
  qed
qed

lemma pbind_Inr_iff: "pbind m f = Inr y \<longleftrightarrow> (\<exists>x. m = Inr x \<and> f x = Inr y)"
  by (cases m) auto

lemma feasible_mem: "feasible a model \<Longrightarrow> it \<in> set model \<Longrightarrow> holds a it"
  by (simp add: feasible_def list_all_iff)

lemma feasible_append: "feasible a (xs @ ys) \<longleftrightarrow> feasible a xs \<and> feasible a ys"
  by (simp add: feasible_def)

lemma model_add_prefix: "model_add model it = Inr model' \<Longrightarrow> \<exists>ext. model' = model @ ext"
  by (cases it) (auto simp: model_add_def split: if_splits)

lemma model_add_holds: "model_add model it = Inr model' \<Longrightarrow> feasible a model' \<Longrightarrow> holds a it"
  by (cases it) (auto simp: model_add_def feasible_def split: if_splits)

lemma model_add_not_False: "model_add model it = Inr model' \<Longrightarrow> it \<noteq> PyBool False"
  by (cases it) (auto simp: model_add_def split: if_splits)

lemma model_add_Constraint:
  "model_add model (Constraint l op r) = Inr (model @ [Constraint l op r])"
  by (simp add: model_add_def)

lemma compare_terms:
  "ts \<noteq> [] \<Longrightarrow> compare (Expr ts c) op r = Constraint (Expr ts c) op r"
  by (simp add: compare_def)

lemma consecutive_rows_Cons_Inr:
  assumes "consecutive_rows ss spd (i # is) (kloc, model) = Inr res"
  shows "\<exists>c n Z kloc1 model1 model2.
           py_index (classes (semester ss)) (int i) = Inr c \<and>
           column_count (variables_matrix ss) = Inr n \<and>
           window_loop (sem_id (semester ss)) (variables_matrix ss) spd i (slot_count c)
             (py_range 0 (int n - slot_count c + 1)) (number 0, kloc, model) = Inr (Z, kloc1, model1) \<and>
           model_add model1 (compare Z EQ (number 1)) = Inr model2 \<and>
           consecutive_rows ss spd is (kloc1, model2) = Inr res"
proof -
  from assms obtain c where c: "py_index (classes (semester ss)) (int i) = Inr c"
    by (cases "py_index (classes (semester ss)) (int i)") auto
  from assms c obtain n where n: "column_count (variables_matrix ss) = Inr n"
    by (cases "column_count (variables_matrix ss)") auto
  from assms c n obtain r where r: "window_loop (sem_id (semester ss)) (variables_matrix ss) spd i (slot_count c)
             (py_range 0 (int n - slot_count c + 1)) (number 0, kloc, model) = Inr r"
    by (cases "window_loop (sem_id (semester ss)) (variables_matrix ss) spd i (slot_count c)
             (py_range 0 (int n - slot_count c + 1)) (number 0, kloc, model)") auto
  obtain Z kloc1 model1 where rr: "r = (Z, kloc1, model1)" by (cases r)
  from assms c n r rr obtain model2 where
    m2: "model_add model1 (compare Z EQ (number 1)) = Inr model2"
    by (cases "model_add model1 (compare Z EQ (number 1))") auto
  from assms c n r rr m2 have "consecutive_rows ss spd is (kloc1, model2) = Inr res"
    by simp
  with c n r rr m2 show ?thesis by blast
qed

lemma consecutive_rows_prefix:
  "consecutive_rows ss spd is (kloc, model) = Inr (kl, model') \<Longrightarrow> \<exists>ext. model' = model @ ext"
proof (induction "is" arbitrary: kloc model)
  case Nil
  then show ?case by simp
next
  case (Cons i "is")
  from consecutive_rows_Cons_Inr [OF Cons.prems] obtain c :: class_ and n Z kloc1 model1 model2 where
    wl: "window_loop (sem_id (semester ss)) (variables_matrix ss) spd i (slot_count c)
           (py_range 0 (int n - slot_count c + 1)) (number 0, kloc, model) = Inr (Z, kloc1, model1)"
    and m2: "model_add model1 (compare Z EQ (number 1)) = Inr model2"
    and rest: "consecutive_rows ss spd is (kloc1, model2) = Inr (kl, model')"
    by blast
  from window_loop_prefix [OF wl] obtain e1 where e1: "model1 = model @ e1" by blast
  from model_add_prefix [OF m2] obtain e2 where e2: "model2 = model1 @ e2" by blast
  from Cons.IH [OF rest] e1 e2 show ?case by auto
qed

lemma consecutive_rows_row:
  assumes "consecutive_rows (SemesterSchedule sem st) spd is (kloc, model) = Inr (kl, model')"
    and "i \<in> set is" "i < length (classes sem)" "1 \<le> slot_count (classes sem ! i)"
  shows "set (consecutive_row_items (sem_id sem) (length (slots st)) spd i (slot_count (classes sem ! i)))
           \<subseteq> set model' \<and>
         valid_starts (length (slots st)) spd (slot_count (classes sem ! i)) \<noteq> []"
  using assms(1,2)
proof (induction "is" arbitrary: kloc model)
  case Nil
  then show ?case by simp
next
  case (Cons i' "is")
  let ?ss = "SemesterSchedule sem st"
  let ?m = "length (classes sem)" and ?n = "length (slots st)" and ?sid = "sem_id sem"
  have vm: "variables_matrix ?ss = create_variables_matrix ?sid ?m ?n"
    and sm: "semester ?ss = sem"
    by (simp_all add: SemesterSchedule_def)
  from consecutive_rows_Cons_Inr [OF Cons.prems(1)] obtain c n Z kloc1 model1 model2 where
    c: "py_index (classes sem) (int i') = Inr c"
    and n: "column_count (create_variables_matrix ?sid ?m ?n) = Inr n"
    and wl: "window_loop ?sid (create_variables_matrix ?sid ?m ?n) spd i' (slot_count c)
           (py_range 0 (int n - slot_count c + 1)) (number 0, kloc, model) = Inr (Z, kloc1, model1)"
    and m2: "model_add model1 (compare Z EQ (number 1)) = Inr model2"
    and rest': "consecutive_rows ?ss spd is (kloc1, model2) = Inr (kl, model')"
    unfolding vm sm by blast
  show ?case
  proof (cases "i = i'")
    case False
    with Cons.prems(2) have "i \<in> set is" by simp
    from Cons.IH [OF rest' this] show ?thesis .
  next
    case True
    let ?k = "slot_count (classes sem ! i)"
    let ?js = "py_range 0 (int ?n - ?k + 1)"
    let ?vs = "valid_starts ?n spd ?k"
    from c True assms(3) have ck: "c = classes sem ! i" by (simp add: py_index_nat)
    from n assms(3) have nn: "n = ?n" by (simp add: column_count_create split: if_splits)
    have fit: "\<forall>j \<in> set ?js. int j + ?k \<le> int ?n" by (auto simp: py_range_def)
    have "spd \<noteq> 0 \<or> ?js = []"
    proof (cases ?js)
      case Nil
      then show ?thesis by simp
    next
      case (Cons j js)
      with wl ck nn True have "spd \<noteq> 0" by (auto split: if_splits)
      then show ?thesis by simp
    qed
    from window_loop_create [OF assms(4,3) fit this, of ?sid "[]" 0 kloc model]
    obtain kl1 where
      "window_loop ?sid (create_variables_matrix ?sid ?m ?n) spd i ?k ?js (Expr [] 0, kloc, model) =
         Inr (Expr ([] @ unit_terms (map (zvar ?sid i ?k) (filter (valid_start spd ?k) ?js))) 0, kl1,
              model @ concat (map (window_items ?sid i ?k) (filter (valid_start spd ?k) ?js)))"
      by blast
    with wl ck nn True have
      Z: "Z = Expr (unit_terms (map (zvar ?sid i ?k) ?vs)) 0"
      and m1: "model1 = model @ concat (map (window_items ?sid i ?k) ?vs)"
      by (simp_all add: number_def valid_starts_def)
    have ne: "?vs \<noteq> []"
    proof
      assume "?vs = []"
      with Z have "compare Z EQ (number 1) = PyBool False"
        by (simp add: compare_def unit_terms_def number_def)
      with model_add_not_False [OF m2] show False by simp
    qed
    then have "compare Z EQ (number 1) = Constraint Z EQ (number 1)"
      unfolding Z by (intro compare_terms) (simp add: unit_terms_def)
    with m2 have m2': "model2 = model1 @ [compare Z EQ (number 1)]"
      by (simp add: model_add_Constraint)
    from consecutive_rows_prefix [OF rest'] obtain ext where
      "model' = model2 @ ext" by blast
    with Z m1 m2' ne show ?thesis
      by (auto simp: consecutive_row_items_def)
  qed
qed

lemma match_rows_Cons_Inr:
  assumes "match_rows ss (i # is) model = Inr res"
  shows "\<exists>n x c model1.
           column_count (variables_matrix ss) = Inr n \<and>
           add_cells (variables_matrix ss) (number 0) (map (\<lambda>j. (i, j)) [0..<n]) = Inr x \<and>
           py_index (classes (semester ss)) (int i) = Inr c \<and>
           model_add model (compare x EQ (number (of_int (slot_count c)))) = Inr model1 \<and>
           match_rows ss is model1 = Inr res"
proof -
  from assms obtain n where n: "column_count (variables_matrix ss) = Inr n"
    by (cases "column_count (variables_matrix ss)") auto
  from assms n obtain x where
    x: "add_cells (variables_matrix ss) (number 0) (map (\<lambda>j. (i, j)) [0..<n]) = Inr x"
    by (cases "add_cells (variables_matrix ss) (number 0) (map (\<lambda>j. (i, j)) [0..<n])") auto
  from assms n x obtain c where c: "py_index (classes (semester ss)) (int i) = Inr c"
    by (cases "py_index (classes (semester ss)) (int i)") auto
  from assms n x c obtain model1 where
    m1: "model_add model (compare x EQ (number (of_int (slot_count c)))) = Inr model1"
    by (cases "model_add model (compare x EQ (number (of_int (slot_count c))))") auto
  from assms n x c m1 show ?thesis by simp
qed

lemma match_rows_prefix:
  "match_rows ss is model = Inr model' \<Longrightarrow> \<exists>ext. model' = model @ ext"
proof (induction "is" arbitrary: model)
  case Nil
  then show ?case by simp
next
  case (Cons i "is")
  from match_rows_Cons_Inr [OF Cons.prems] obtain x and c :: class_ and model1 where
    m1: "model_add model (compare x EQ (number (of_int (slot_count c)))) = Inr model1"
    and rest: "match_rows ss is model1 = Inr model'"
    by blast
  from model_add_prefix [OF m1] Cons.IH [OF rest] show ?case by auto
qed

lemma match_rows_row:
  assumes "match_rows (SemesterSchedule sem st) is model = Inr model'"
    and "i \<in> set is" "i < length (classes sem)" "feasible a model'"
  shows "holds a (match_row_item (sem_id sem) (length (slots st)) i (slot_count (classes sem ! i)))"
  using assms(1,2)
proof (induction "is" arbitrary: model)
  case Nil
  then show ?case by simp
next
  case (Cons i' "is")
  let ?ss = "SemesterSchedule sem st"
  let ?m = "length (classes sem)" and ?n = "length (slots st)" and ?sid = "sem_id sem"
  have vm: "variables_matrix ?ss = create_variables_matrix ?sid ?m ?n"
    and sm: "semester ?ss = sem"
    by (simp_all add: SemesterSchedule_def)
  from match_rows_Cons_Inr [OF Cons.prems(1)] obtain n x c model1 where
    n: "column_count (create_variables_matrix ?sid ?m ?n) = Inr n"
    and x: "add_cells (create_variables_matrix ?sid ?m ?n) (number 0) (map (\<lambda>j. (i', j)) [0..<n]) = Inr x"
    and c: "py_index (classes sem) (int i') = Inr c"
    and m1: "model_add model (compare x EQ (number (of_int (slot_count c)))) = Inr model1"
    and rest: "match_rows ?ss is model1 = Inr model'"
    unfolding vm sm by blast
  show ?case
  proof (cases "i = i'")
    case False
    with Cons.prems(2) have "i \<in> set is" by simp
    from Cons.IH [OF rest this] show ?thesis .
  next
    case True
    from c True assms(3) have ck: "c = classes sem ! i" by (simp add: py_index_nat)
    from n assms(3) have nn: "n = ?n" by (simp add: column_count_create split: if_splits)
    have inr: "\<forall>(r, c) \<in> set (map (\<lambda>j. (i, j)) [0..<?n]). r < ?m \<and> c < ?n"
      using assms(3) by auto
    from add_cells_create [OF inr, of ?sid "[]" 0] x True nn
    have xx: "x = Expr (unit_terms (map (\<lambda>j. XVar ?sid i j) [0..<?n])) 0"
      by (simp add: number_def comp_def)
    from match_rows_prefix [OF rest] obtain ext where "model' = model1 @ ext" by blast
    with assms(4) have "feasible a model1" by (simp add: feasible_append)
    from model_add_holds [OF m1 this] xx ck show ?thesis
      by (simp add: match_row_item_def)
  qed
qed

lemma holds_compare: "holds a (compare l op r) = cmp_holds op (eval a l) (eval a r)"
  by (cases l; cases r) (simp add: compare_def)

lemma single_run:
  fixes f :: "nat \<Rightarrow> bool"
  assumes "length (filter f [0..<n]) = K" "j + K \<le> n" "\<forall>t \<in> {j..<j + K}. f t"
  shows "{t. t < n \<and> f t} = {j..<j + K}"
proof -
  have s: "set (filter f [0..<n]) = {t. t < n \<and> f t}" by auto
  have "card (set (filter f [0..<n])) = length (filter f [0..<n])"
    by (rule distinct_card) simp
  with s assms(1) have c: "card {t. t < n \<and> f t} = K" by simp
  have fin: "finite {t. t < n \<and> f t}" by simp
  have sub: "{j..<j + K} \<subseteq> {t. t < n \<and> f t}" using assms(2,3) by auto
  have "card {j..<j + K} = card {t. t < n \<and> f t}" using c by simp
  from card_subset_eq [OF fin sub this] show ?thesis by simp
qed

lemma count_true_pos: "0 < count_true a vs \<Longrightarrow> \<exists>v \<in> set vs. a v"
  by (induction vs) (auto simp: count_true_def split: if_splits)

lemma count_true_map: "count_true a (map g xs) = length (filter (\<lambda>x. a (g x)) xs)"
  by (induction xs) (simp_all add: count_true_def)

lemma objective_rows_create:
  "\<forall>i \<in> set is. i < m \<Longrightarrow>
   objective_rows (create_variables_matrix sid m n) is (Expr ts c) =
     Inr (Expr (ts @ unit_terms (concat (map (row_vars sid n) is))) c)"
proof (induction "is" arbitrary: ts)
  case Nil
  then show ?case by (simp add: unit_terms_def)
next
  case (Cons i "is")
  then have i: "i < m" and rest: "\<forall>i \<in> set is. i < m" by auto
  have inr: "\<forall>(r, c) \<in> set (map (\<lambda>j. (i, j)) [0..<n]). r < m \<and> c < n"
    using i by auto
  show ?case
    using i add_cells_create [OF inr, of sid ts c]
      Cons.IH [OF rest, of "ts @ unit_terms (row_vars sid n i)"]
    by (simp add: column_count_create comp_def row_vars_def unit_terms_def)
qed

lemma count_true_concat: "count_true a (concat xss) = sum_list (map (count_true a) xss)"
  by (induction xss) (simp_all add: count_true_def)

lemma eval_neg: "eval a (neg_expr e) = - eval a e"
proof (cases e)
  case (Expr ts c)
  have "(\<Sum>(q, v)\<leftarrow>map (\<lambda>(q, v). (- q, v)) ts. q * of_bool (a v)) = - (\<Sum>(q, v)\<leftarrow>ts. q * (of_bool (a v) :: rat))"
    by (induction ts) auto
  with Expr show ?thesis by simp
qed

lemma eval_add_expr: "eval a (add_expr e g) = eval a e + eval a g"
  by (cases e; cases g) simp

lemma sum_list_nth_upt: "(\<Sum>i\<leftarrow>[0..<length xs]. f (xs ! i)) = sum_list (map f xs)"
proof -
  have "map (\<lambda>i. f (xs ! i)) [0..<length xs] = map f xs"
    by (rule nth_equalityI) simp_all
  then show ?thesis by simp
qed

lemma int_sum_list: "int (sum_list ns) = sum_list (map int ns)"
  by (induction ns) simp_all

lemma match_row_count:
  assumes "set_constraints_match_class_slot_count (SemesterSchedule sem st) model0 = Inr model1"
    and "feasible a model1" and "i < length (classes sem)"
  shows "int (count_true a (row_vars (sem_id sem) (length (slots st)) i)) = slot_count (classes sem ! i)"
proof -
  let ?ss = "SemesterSchedule sem st"
  let ?m = "length (classes sem)" and ?n = "length (slots st)" and ?sid = "sem_id sem"
  let ?k = "slot_count (classes sem ! i)"
  have vm: "length (variables_matrix ?ss) = ?m"
    by (simp add: SemesterSchedule_def)
  from assms(1) have mrows: "match_rows ?ss [0..<?m] model0 = Inr model1"
    by (simp add: set_constraints_match_class_slot_count_def vm)
  have iin: "i \<in> set [0..<?m]" using assms(3) by simp
  from match_rows_row [OF mrows iin assms(3,2)]
  have "(of_nat (count_true a (map (\<lambda>j. XVar ?sid i j) [0..<?n])) :: rat) = of_int ?k"
    by (simp add: match_row_item_def holds_compare eval_unit_terms eval_number del: eval.simps)
  then have "(of_int (int (count_true a (map (\<lambda>j. XVar ?sid i j) [0..<?n]))) :: rat) = of_int ?k"
    by simp
  then show ?thesis
    by (simp only: of_int_eq_iff row_vars_def)
qed

lemma objective_value:
  assumes "set_constraints_match_class_slot_count (SemesterSchedule sem st) model0 = Inr model1"
    and "feasible a model1"
  shows "\<exists>obj. get_objective_function_unallocated_class_slots (SemesterSchedule sem st) = Inr obj \<and>
           eval a obj = - of_int (sum_list (map slot_count (classes sem)))"
proof -
  let ?ss = "SemesterSchedule sem st"
  let ?m = "length (classes sem)" and ?n = "length (slots st)" and ?sid = "sem_id sem"
  let ?x = "Expr (unit_terms (concat (map (row_vars ?sid ?n) [0..<?m]))) 0"
  have vm: "variables_matrix ?ss = create_variables_matrix ?sid ?m ?n"
    by (simp add: SemesterSchedule_def)
  have "objective_rows (create_variables_matrix ?sid ?m ?n) [0..<?m] (Expr [] 0) = Inr ?x"
    using objective_rows_create [of "[0..<?m]" ?m ?sid ?n "[]" 0] by simp
  then have obj: "get_objective_function_unallocated_class_slots ?ss = Inr (neg_expr ?x)"
    by (simp add: get_objective_function_unallocated_class_slots_def vm number_def)
  have "int (count_true a (concat (map (row_vars ?sid ?n) [0..<?m])))
          = (\<Sum>i\<leftarrow>[0..<?m]. int (count_true a (row_vars ?sid ?n i)))"
    by (simp add: count_true_concat comp_def int_sum_list)
  also have "\<dots> = (\<Sum>i\<leftarrow>[0..<?m]. slot_count (classes sem ! i))"
    by (rule arg_cong [where f = sum_list], rule map_cong [OF refl])
       (simp add: match_row_count [OF assms])
  also have "\<dots> = sum_list (map slot_count (classes sem))"
    by (rule sum_list_nth_upt)
  finally have "int (count_true a (concat (map (row_vars ?sid ?n) [0..<?m])))
                  = sum_list (map slot_count (classes sem))" .
  then have "(of_nat (count_true a (concat (map (row_vars ?sid ?n) [0..<?m]))) :: rat)
               = of_int (sum_list (map slot_count (classes sem)))"
    by (metis of_int_of_nat_eq)
  then have "eval a (neg_expr ?x) = - of_int (sum_list (map slot_count (classes sem)))"
    by (simp add: eval_neg eval_unit_terms del: eval.simps neg_expr.simps)
  with obj show ?thesis by blast
qed

lemma set_constraints_consecutive_slots_Inr:
  assumes "set_constraints_consecutive_slots days st ss model = Inr model'"
  shows "\<exists>kl. days \<noteq> 0 \<and>
           consecutive_rows ss (int (length (slots st)) div days)
             [0..<length (variables_matrix ss)] (None, model) = Inr (kl, model')"
proof (cases "days = 0")
  case True
  with assms show ?thesis
    by (simp add: set_constraints_consecutive_slots_def get_slot_count_per_day_def
          get_slot_count_per_day'_def)
next
  case False
  let ?r = "consecutive_rows ss (int (length (slots st)) div days)
             [0..<length (variables_matrix ss)] (None, model)"
  from assms False have *: "pbind ?r (\<lambda>(kloc, model'). Inr model') = Inr model'"
    by (simp add: set_constraints_consecutive_slots_def get_slot_count_per_day_def
          get_slot_count_per_day'_def)
  show ?thesis
  proof (cases ?r)
    case (Inl e)
    with * show ?thesis by simp
  next
    case (Inr p)
    obtain kl m where "p = (kl, m)" by (cases p)
    with * Inr False show ?thesis by simp
  qed
qed

lemma same_day:
  fixes spd k x :: int
  assumes "0 < spd" "1 \<le> k" "x mod spd \<le> spd - k"
  shows "(x + k - 1) div spd = x div spd"
proof -
  have eq: "(x mod spd + k - 1) + (x div spd) * spd = x + k - 1"
    by (simp add: algebra_simps)
  have "(x + k - 1) div spd = ((x mod spd + k - 1) + (x div spd) * spd) div spd"
    by (simp only: eq)
  also have "\<dots> = (x mod spd + k - 1) div spd + x div spd"
    using assms(1) by (simp only: div_mult_self1)
  also have "(x mod spd + k - 1) div spd = 0"
    using assms pos_mod_sign [OF assms(1), of x] by (intro div_pos_pos_trivial) linarith+
  finally show ?thesis by simp
qed

lemma enumerate_nth: "enumerate 0 cs = map (\<lambda>j. (j, cs ! j)) [0..<length cs]"
  by (rule nth_equalityI) (simp_all add: nth_enumerate_eq)

lemma filter_enumerate_rows:
  "map (\<lambda>(j, c). (j, i)) (filter (\<lambda>(j, c). contains_teacher c t) (enumerate 0 cs))
     = map (\<lambda>j. (j, i)) (teacher_rows t cs)"
  by (simp add: enumerate_nth filter_map comp_def teacher_rows_def)

lemma teacher_sum_create:
  assumes "i < length (slots st)"
  shows "teacher_sum t i (map (\<lambda>sem. SemesterSchedule sem st) sems) (Expr ts c) =
           Inr (Expr (ts @ unit_terms (teacher_vars sems t i)) c)"
proof (induction sems arbitrary: ts)
  case Nil
  then show ?case by (simp add: teacher_vars_def unit_terms_def)
next
  case (Cons sem sems)
  let ?m = "length (classes sem)" and ?n = "length (slots st)"
  have inr: "\<forall>(r, c) \<in> set (map (\<lambda>j. (j, i)) (teacher_rows t (classes sem))). r < ?m \<and> c < ?n"
    using assms by (auto simp: teacher_rows_def)
  have tv: "teacher_vars (sem # sems) t i
              = map (\<lambda>j. XVar (sem_id sem) j i) (teacher_rows t (classes sem)) @ teacher_vars sems t i"
    by (simp add: teacher_vars_def)
  show ?case
    using add_cells_create [OF inr, of "sem_id sem" ts c]
      Cons.IH [of "ts @ unit_terms (map (\<lambda>j. XVar (sem_id sem) j i) (teacher_rows t (classes sem)))"]
    by (simp add: SemesterSchedule_def filter_enumerate_rows tv comp_def unit_terms_def)
qed

lemma global_slots_create:
  assumes "\<forall>i \<in> set is. i < length (slots st)"
  shows "global_slots t (map (\<lambda>sem. SemesterSchedule sem st) sems) is model =
           Inr (model @ map (teacher_item sems t) is)"
  using assms
proof (induction "is" arbitrary: model)
  case Nil
  then show ?case by simp
next
  case (Cons i "is")
  then have i: "i < length (slots st)" and rest: "\<forall>i \<in> set is. i < length (slots st)" by auto
  show ?case
    using teacher_sum_create [OF i, of t sems "[]" 0] Cons.IH [OF rest]
    by (simp add: number_def teacher_item_def)
qed

lemma global_teachers_create:
  "global_teachers st (map (\<lambda>sem. SemesterSchedule sem st) sems) ts model =
     Inr (model @ concat (map (\<lambda>t. map (teacher_item sems t) [0..<length (slots st)]) ts))"
proof (induction ts arbitrary: model)
  case Nil
  then show ?case by simp
next
  case (Cons t ts)
  show ?case
    using global_slots_create [of "[0..<length (slots st)]" st t sems model] Cons.IH
    by simp
qed

lemma count_true_mem: "v \<in> set vs \<Longrightarrow> a v \<Longrightarrow> 1 \<le> count_true a vs"
  by (induction vs) (auto simp: count_true_def)

lemma count_true_append: "count_true a (xs @ ys) = count_true a xs + count_true a ys"
  by (simp add: count_true_def)

lemma count_true_concat_mem: "ys \<in> set yss \<Longrightarrow> count_true a ys \<le> count_true a (concat yss)"
  by (induction yss) (auto simp: count_true_append)

lemma count_true_two_lists:
  assumes "count_true a (concat xss) \<le> 1" "p < p'" "p' < length xss"
    and "v \<in> set (xss ! p)" "a v" "v' \<in> set (xss ! p')" "a v'"
  shows False
proof -
  have split: "xss = take p' xss @ drop p' xss" by simp
  have "xss ! p \<in> set (take p' xss)"
    using assms(2,3) by (metis in_set_conv_nth length_take min.absorb2 nat_less_le nth_take)
  then have "count_true a (xss ! p) \<le> count_true a (concat (take p' xss))"
    by (rule count_true_concat_mem)
  moreover have "xss ! p' \<in> set (drop p' xss)"
    using assms(3) by (metis Cons_nth_drop_Suc list.set_intros(1))
  then have "count_true a (xss ! p') \<le> count_true a (concat (drop p' xss))"
    by (rule count_true_concat_mem)
  moreover have "count_true a (concat xss)
                   = count_true a (concat (take p' xss)) + count_true a (concat (drop p' xss))"
    by (metis append_take_drop_id concat_append count_true_append)
  moreover have "1 \<le> count_true a (xss ! p)" using assms(4,5) by (rule count_true_mem)
  moreover have "1 \<le> count_true a (xss ! p')" using assms(6,7) by (rule count_true_mem)
  ultimately show False using assms(1) by linarith
qed

lemma count_true_one_list:
  assumes "count_true a (map g js) \<le> 1" "distinct js" "j \<in> set js" "j' \<in> set js"
    and "a (g j)" "a (g j')"
  shows "j = j'"
proof (rule ccontr)
  assume ne: "j \<noteq> j'"
  let ?f = "filter (\<lambda>x. a (g x)) js"
  have "{j, j'} \<subseteq> set ?f" using assms(3-6) by simp
  then have "card {j, j'} \<le> card (set ?f)" by (intro card_mono) simp_all
  moreover have "card (set ?f) = length ?f"
    by (rule distinct_card) (simp add: assms(2))
  moreover have "length ?f \<le> 1" using assms(1) by (simp add: count_true_map)
  moreover have "card {j, j'} = 2" using ne by simp
  ultimately show False by linarith
qed

lemma group_offset_Suc:
  "q < length gs \<Longrightarrow> group_offset gs (Suc q) = group_offset gs q + length (gclasses (gs ! q))"
  by (simp add: group_offset_def take_Suc_conv_app_nth)

lemma group_offset_le:
  "q < length gs \<Longrightarrow>
   group_offset gs q + length (gclasses (gs ! q)) \<le> sum_list (map (\<lambda>g. length (gclasses g)) gs)"
proof -
  assume q: "q < length gs"
  have "sum_list (map (\<lambda>g. length (gclasses g)) gs)
          = sum_list (map (\<lambda>g. length (gclasses g)) (take (Suc q) gs))
            + sum_list (map (\<lambda>g. length (gclasses g)) (drop (Suc q) gs))"
    by (metis append_take_drop_id map_append sum_list_append)
  then show ?thesis
    using group_offset_Suc [OF q] by (simp add: group_offset_def)
qed

lemma group_loop_create:
  assumes "i < n"
  shows "k \<le> length gs \<Longrightarrow> sum_list (map (\<lambda>g. length (gclasses g)) gs) \<le> m \<Longrightarrow>
   \<exists>off. group_loop (create_variables_matrix sid m n) i (Expr (unit_terms cvs) 0) (drop k gs)
          (group_offset gs k, model) =
     Inr (off, model @ map (\<lambda>q. compare (Expr (unit_terms (cvs @ col_vars sid i (group_rows gs q))) 0)
                                   LE (number 1)) [k..<length gs])"
proof (induction "length gs - k" arbitrary: k model)
  case 0
  then show ?case by simp
next
  case (Suc d)
  then have k: "k < length gs" by simp
  then have dr: "drop k gs = gs ! k # drop (Suc k) gs" by (simp add: Cons_nth_drop_Suc)
  let ?len = "length (gclasses (gs ! k))"
  have fit: "group_offset gs k + ?len \<le> m"
    using group_offset_le [OF k] Suc.prems(2) by linarith
  have inr: "\<forall>(r, c) \<in> set (map (\<lambda>j. (group_offset gs k + j, i)) [0..<?len]). r < m \<and> c < n"
    using fit assms by auto
  have rows: "map (\<lambda>(r, c). XVar sid r c) (map (\<lambda>j. (group_offset gs k + j, i)) [0..<?len])
                = col_vars sid i (group_rows gs k)"
    unfolding col_vars_def group_rows_def
    by (rule nth_equalityI) simp_all
  have gv: "add_cells (create_variables_matrix sid m n) (number 0)
              (map (\<lambda>j. (group_offset gs k + j, i)) [0..<?len])
            = Inr (Expr (unit_terms (col_vars sid i (group_rows gs k))) 0)"
    using add_cells_create [OF inr, of sid "[]" 0, unfolded rows] by (simp add: number_def)
  have d: "d = length gs - Suc k" using Suc.hyps(2) by simp
  have up: "[k..<length gs] = k # [Suc k..<length gs]" using k by (simp add: upt_conv_Cons)
  from Suc.hyps(1) [OF d _ Suc.prems(2),
      of "model @ [compare (Expr (unit_terms (cvs @ col_vars sid i (group_rows gs k))) 0) LE (number 1)]"] k
  obtain off where
    "group_loop (create_variables_matrix sid m n) i (Expr (unit_terms cvs) 0) (drop (Suc k) gs)
       (group_offset gs (Suc k),
        model @ [compare (Expr (unit_terms (cvs @ col_vars sid i (group_rows gs k))) 0) LE (number 1)]) =
     Inr (off, (model @ [compare (Expr (unit_terms (cvs @ col_vars sid i (group_rows gs k))) 0) LE (number 1)])
               @ map (\<lambda>q. compare (Expr (unit_terms (cvs @ col_vars sid i (group_rows gs q))) 0)
                                   LE (number 1)) [Suc k..<length gs])"
    by auto
  then show ?case
    by (simp add: dr gv group_offset_Suc [OF k] up unit_terms_def)
qed

lemma group_rows_0: "gs \<noteq> [] \<Longrightarrow> group_rows gs 0 = [0..<length (gclasses (gs ! 0))]"
  by (simp add: group_rows_def group_offset_def)

lemma slot_loop_create:
  assumes "groups sem \<noteq> []"
    and "sum_list (map (\<lambda>g. length (gclasses g)) (groups sem)) \<le> length (classes sem)"
    and "\<forall>i \<in> set is. i < length (slots st)"
  shows "slot_loop (SemesterSchedule sem st) is model = Inr (model @ concat (map (slot_items sem) is))"
  using assms(3)
proof (induction "is" arbitrary: model)
  case Nil
  then show ?case by simp
next
  case (Cons i "is")
  let ?ss = "SemesterSchedule sem st"
  let ?gs = "groups sem"
  let ?m = "length (classes sem)" and ?n = "length (slots st)" and ?sid = "sem_id sem"
  let ?vm = "create_variables_matrix ?sid ?m ?n"
  let ?cvs = "col_vars ?sid i (group_rows ?gs 0)"
  from Cons.prems have i: "i < ?n" and rest: "\<forall>i \<in> set is. i < ?n" by auto
  have vm: "variables_matrix ?ss = ?vm" and sm: "semester ?ss = sem"
    by (simp_all add: SemesterSchedule_def)
  have cg: "common_group sem = Inr (?gs ! 0)"
    using assms(1) by (simp add: common_group_def py_index_zero)
  have len0: "length (gclasses (?gs ! 0)) \<le> ?m"
    using group_offset_le [of 0 ?gs] assms(1,2) by (simp add: group_offset_def)
  have inr: "\<forall>(r, c) \<in> set (map (\<lambda>j. (j, i)) [0..<length (gclasses (?gs ! 0))]). r < ?m \<and> c < ?n"
    using len0 i by auto
  have rows: "map (\<lambda>(r, c). XVar ?sid r c) (map (\<lambda>j. (j, i)) [0..<length (gclasses (?gs ! 0))]) = ?cvs"
    by (simp add: col_vars_def group_rows_0 [OF assms(1)])
  have common: "add_cells ?vm (number 0) (map (\<lambda>j. (j, i)) [0..<length (gclasses (?gs ! 0))])
                  = Inr (Expr (unit_terms ?cvs) 0)"
    using add_cells_create [OF inr, of ?sid "[]" 0, unfolded rows] by (simp add: number_def)
  show ?case
  proof (cases "length ?gs \<le> 1")
    case True
    with assms(1) have ncg: "non_common_groups sem = []"
      by (simp add: non_common_groups_def)
    have "slot_items sem i = [compare (Expr (unit_terms ?cvs) 0) LE (number 1)]"
      using True by (simp add: slot_items_def limit_item_def)
    then show ?thesis
      using Cons.IH [OF rest, of "model @ [compare (Expr (unit_terms ?cvs) 0) LE (number 1)]"] True
      by (simp add: vm sm cg common non_common_groups_def)
  next
    case False
    then have ncg: "non_common_groups sem \<noteq> []"
      by (simp add: non_common_groups_def)
    have off1: "group_offset ?gs (Suc 0) = length (gclasses (?gs ! 0))"
      using assms(1) by (cases ?gs) (simp_all add: group_offset_def)
    from group_loop_create [OF i _ assms(2), of 1 ?sid ?cvs model] False
    obtain off where
      "group_loop ?vm i (Expr (unit_terms ?cvs) 0) (drop 1 ?gs) (group_offset ?gs 1, model) =
         Inr (off, model @ map (\<lambda>q. compare (Expr (unit_terms (?cvs @ col_vars ?sid i (group_rows ?gs q))) 0)
                                   LE (number 1)) [1..<length ?gs])"
      by auto
    moreover have "slot_items sem i
        = map (\<lambda>q. compare (Expr (unit_terms (?cvs @ col_vars ?sid i (group_rows ?gs q))) 0)
                      LE (number 1)) [1..<length ?gs]"
      using False by (simp add: slot_items_def limit_item_def col_vars_def)
    ultimately show ?thesis
      using Cons.IH [OF rest, of "model @ slot_items sem i"] False
      by (simp add: vm sm cg common off1 non_common_groups_def)
  qed
qed

lemma class_limits_create:
  assumes "groups sem \<noteq> []"
    and "sum_list (map (\<lambda>g. length (gclasses g)) (groups sem)) \<le> length (classes sem)"
    and "classes sem \<noteq> []"
  shows "set_constraints_class_limits_per_slot (SemesterSchedule sem st) model =
           Inr (model @ concat (map (slot_items sem) [0..<length (slots st)]))"
proof -
  have "column_count (variables_matrix (SemesterSchedule sem st)) = Inr (length (slots st))"
    using assms(3) by (simp add: SemesterSchedule_def column_count_create)
  then show ?thesis
    using slot_loop_create [OF assms(1,2), of "[0..<length (slots st)]" st model]
    by (simp add: set_constraints_class_limits_per_slot_def)
qed

lemma limit_item_holds:
  "holds a (limit_item sid i rows) \<longleftrightarrow> count_true a (col_vars sid i rows) \<le> 1"
proof -
  have "holds a (limit_item sid i rows) \<longleftrightarrow> (of_nat (count_true a (col_vars sid i rows)) :: rat) \<le> 1"
    by (simp add: limit_item_def holds_compare eval_unit_terms eval_number del: eval.simps)
  also have "\<dots> \<longleftrightarrow> count_true a (col_vars sid i rows) \<le> 1"
    by (metis of_nat_1 of_nat_le_iff)
  finally show ?thesis .
qed

lemma group_offset_mono:
  "q \<le> q' \<Longrightarrow> q' \<le> length gs \<Longrightarrow> group_offset gs q \<le> group_offset gs q'"
proof (induction q' arbitrary: q)
  case 0
  then show ?case by simp
next
  case (Suc q')
  show ?case
  proof (cases "q = Suc q'")
    case True
    then show ?thesis by simp
  next
    case False
    with Suc.prems have "q \<le> q'" "q' < length gs" by simp_all
    with Suc.IH [of q] group_offset_Suc [of q' gs] show ?thesis by simp
  qed
qed

lemma distinct_two_groups:
  assumes "1 \<le> q" "q < length gs"
  shows "distinct (group_rows gs 0 @ group_rows gs q)"
proof -
  have "group_offset gs 1 \<le> group_offset gs q"
    using assms by (intro group_offset_mono) simp_all
  moreover have "group_offset gs 1 = group_offset gs 0 + length (gclasses (gs ! 0))"
    using assms group_offset_Suc [of 0 gs] by (cases gs) simp_all
  ultimately show ?thesis
    by (auto simp: group_rows_def)
qed

lemma concat_nth_offset:
  assumes "q < length xss" "j < length (xss ! q)"
  shows "concat xss ! (sum_list (map length (take q xss)) + j) = xss ! q ! j"
proof -
  have "xss = take q xss @ xss ! q # drop (Suc q) xss"
    using assms(1) by (simp add: id_take_nth_drop)
  then have "concat xss = concat (take q xss) @ xss ! q @ concat (drop (Suc q) xss)"
    by (metis concat.simps(2) concat_append)
  moreover have "length (concat (take q xss)) = sum_list (map length (take q xss))"
    by (simp add: length_concat)
  ultimately show ?thesis
    using assms(2) by (simp add: nth_append)
qed

lemma isclose_zero: "isclose v 0 \<longleftrightarrow> v = 0"
proof -
  have "\<bar>v\<bar> \<le> rel_tol * \<bar>v\<bar> \<longleftrightarrow> v = 0"
  proof
    assume h: "\<bar>v\<bar> \<le> rel_tol * \<bar>v\<bar>"
    have "rel_tol * \<bar>v\<bar> \<le> (1 / 2) * \<bar>v\<bar>"
      by (rule mult_right_mono) (simp_all add: rel_tol_def)
    with h have "\<bar>v\<bar> \<le> (1 / 2) * \<bar>v\<bar>" by linarith
    then show "v = 0" by simp
  qed simp
  moreover have "max (rel_tol * \<bar>v\<bar>) 0 = rel_tol * \<bar>v\<bar>"
    by (simp add: rel_tol_def max_def)
  ultimately show ?thesis
    by (simp add: isclose_def abs_tol_def)
qed

lemma is_variable_true_iff: "is_variable_true v \<longleftrightarrow> v \<noteq> 0"
  by (simp add: is_variable_true_def isclose_zero)

lemma ClassSchedule_block:
  assumes "e < length (slots st)" "1 \<le> cnt" "cnt \<le> int e + 1"
  shows "ClassSchedule st c (int e) cnt = Inr (block st c (nat (int e - cnt + 1)) e)"
proof -
  have "py_index (slots st) (int e - cnt + 1) = Inr (slots st ! nat (int e - cnt + 1))"
    using assms py_index_nat [of "slots st" "nat (int e - cnt + 1)"] by simp
  moreover have "py_index (slots st) (int e) = Inr (slots st ! e)"
    using assms(1) by (simp add: py_index_nat)
  ultimately show ?thesis by (simp add: ClassSchedule_def block_def)
qed

lemma scan_row_step:
  assumes "i < length (classes sem)" "j < length (slots st)"
  shows "scan_row st sol (SemesterSchedule sem st) i (j # js) (cnt, prev, out) =
     (let t = cell_true sol (sem_id sem) i j;
          cnt' = (if t then cnt + 1 else cnt)
      in if prev \<and> \<not> t
         then pbind (ClassSchedule st (classes sem ! i) (int j - 1) cnt') (\<lambda>b.
                scan_row st sol (SemesterSchedule sem st) i js (0, t, out @ [b]))
         else if t \<and> int j = int (length (slots st)) - 1
         then pbind (ClassSchedule st (classes sem ! i) (int (length (slots st)) - 1) cnt') (\<lambda>b.
                scan_row st sol (SemesterSchedule sem st) i js (cnt', t, out @ [b]))
         else scan_row st sol (SemesterSchedule sem st) i js (cnt', t, out))"
  using assms
  by (simp add: SemesterSchedule_def matrix_at_create py_index_nat cell_true_def Let_def)

lemma scan_false_stretch:
  assumes "i < length (classes sem)"
  shows "\<forall>j \<in> set js. j < length (slots st) \<and> \<not> cell_true sol (sem_id sem) i j \<Longrightarrow>
   scan_row st sol (SemesterSchedule sem st) i (js @ rest) (cnt, False, out) =
   scan_row st sol (SemesterSchedule sem st) i rest (cnt, False, out)"
proof (induction js)
  case Nil
  then show ?case by simp
next
  case (Cons j js)
  then show ?case
    by (simp add: scan_row_step [OF assms] Let_def del: scan_row.simps)
qed

lemma scan_true_stretch:
  assumes "i < length (classes sem)"
  shows "\<forall>j \<in> set js. j + 1 < length (slots st) \<and> cell_true sol (sem_id sem) i j \<Longrightarrow>
   scan_row st sol (SemesterSchedule sem st) i (js @ rest) (cnt, prev, out) =
   scan_row st sol (SemesterSchedule sem st) i rest (cnt + int (length js), prev \<or> js \<noteq> [], out)"
proof (induction js arbitrary: cnt prev)
  case Nil
  then show ?case by simp
next
  case (Cons j js)
  from Cons.prems have j: "j < length (slots st)" "j + 1 < length (slots st)"
    "cell_true sol (sem_id sem) i j"
    and rest: "\<forall>j \<in> set js. j + 1 < length (slots st) \<and> cell_true sol (sem_id sem) i j"
    by auto
  have ne: "int j \<noteq> int (length (slots st)) - 1" using j(2) by linarith
  have "scan_row st sol (SemesterSchedule sem st) i ((j # js) @ rest) (cnt, prev, out) =
        scan_row st sol (SemesterSchedule sem st) i (js @ rest) (cnt + 1, True, out)"
    using j(3) ne by (simp add: scan_row_step [OF assms j(1)] Let_def del: scan_row.simps)
  also have "\<dots> = scan_row st sol (SemesterSchedule sem st) i rest
                     (cnt + 1 + int (length js), True \<or> js \<noteq> [], out)"
    by (rule Cons.IH [OF rest])
  finally show ?case by (simp add: add.assoc)
qed

lemma scan_run_ends_by_false:
  assumes "i < length (classes sem)" "j < length (slots st)" "\<not> cell_true sol (sem_id sem) i j"
    and "1 \<le> cnt" "cnt \<le> int j"
  shows "scan_row st sol (SemesterSchedule sem st) i (j # rest) (cnt, True, out) =
         scan_row st sol (SemesterSchedule sem st) i rest
           (0, False, out @ [block st (classes sem ! i) (nat (int j - cnt)) (j - 1)])"
proof -
  have j1: "1 \<le> j" using assms(4,5) by linarith
  have "ClassSchedule st (classes sem ! i) (int (j - 1)) cnt =
          Inr (block st (classes sem ! i) (nat (int (j - 1) - cnt + 1)) (j - 1))"
    by (rule ClassSchedule_block) (use assms j1 in simp_all)
  moreover have "int (j - 1) = int j - 1" using j1 by simp
  ultimately have "ClassSchedule st (classes sem ! i) (int j - 1) cnt =
          Inr (block st (classes sem ! i) (nat (int j - cnt)) (j - 1))"
    by simp
  then show ?thesis
    using assms(3) by (simp add: scan_row_step [OF assms(1,2)] Let_def del: scan_row.simps)
qed

lemma scan_run_ends_with_row:
  assumes "i < length (classes sem)" "j + 1 = length (slots st)" "cell_true sol (sem_id sem) i j"
    and "0 \<le> cnt" "cnt \<le> int j"
  shows "scan_row st sol (SemesterSchedule sem st) i (j # rest) (cnt, prev, out) =
         scan_row st sol (SemesterSchedule sem st) i rest
           (cnt + 1, True, out @ [block st (classes sem ! i) (nat (int j - cnt)) j])"
proof -
  have j: "j < length (slots st)" using assms(2) by simp
  have last: "int (length (slots st)) - 1 = int j" using assms(2) by simp
  have "ClassSchedule st (classes sem ! i) (int j) (cnt + 1) =
          Inr (block st (classes sem ! i) (nat (int j - (cnt + 1) + 1)) j)"
    by (rule ClassSchedule_block) (use assms j in simp_all)
  then have "ClassSchedule st (classes sem ! i) (int j) (cnt + 1) =
          Inr (block st (classes sem ! i) (nat (int j - cnt)) j)"
    by simp
  then show ?thesis
    using assms(3) by (simp add: scan_row_step [OF assms(1) j] Let_def last del: scan_row.simps)
qed

lemma upt_app: "i \<le> j \<Longrightarrow> j \<le> k \<Longrightarrow> [i..<k] = [i..<j] @ [j..<k]"
  by (metis le_Suc_ex upt_add_eq_append)

lemma upt_split3: "a \<le> b \<Longrightarrow> b < n \<Longrightarrow> [0..<n] = [0..<a] @ [a..<b] @ b # [Suc b..<n]"
  using upt_app [of 0 b n] upt_app [of 0 a b] by (simp add: upt_conv_Cons)

lemma upt_split_last: "a < n \<Longrightarrow> [0..<n] = [0..<a] @ [a..<n - 1] @ [n - 1]"
  using upt_app [of 0 a n] upt_app [of a "n - 1" n] by (simp add: upt_conv_Cons)

lemma scan_single_run:
  assumes "i < length (classes sem)" "1 \<le> r" "a + r \<le> length (slots st)"
    and "\<forall>j < length (slots st). cell_true sol (sem_id sem) i j \<longleftrightarrow> a \<le> j \<and> j < a + r"
  shows "\<exists>cnt prev. scan_row st sol (SemesterSchedule sem st) i [0..<length (slots st)] (0, False, out) =
           Inr (cnt, prev, out @ [block st (classes sem ! i) a (a + r - 1)])"
proof -
  let ?n = "length (slots st)" and ?ss = "SemesterSchedule sem st"
  let ?blk = "block st (classes sem ! i) a (a + r - 1)"
  have f1: "\<forall>j \<in> set [0..<a]. j < ?n \<and> \<not> cell_true sol (sem_id sem) i j"
    using assms(3,4) by auto
  show ?thesis
  proof (cases "a + r < ?n")
    case True
    have sp: "[0..<?n] = [0..<a] @ ([a..<a + r] @ ((a + r) # ([Suc (a + r)..<?n] @ [])))"
      using upt_split3 [of a "a + r" ?n] True by simp
    have t: "\<forall>j \<in> set [a..<a + r]. j + 1 < ?n \<and> cell_true sol (sem_id sem) i j"
      using True assms(4) by auto
    have f2: "\<forall>j \<in> set [Suc (a + r)..<?n]. j < ?n \<and> \<not> cell_true sol (sem_id sem) i j"
      using assms(4) by auto
    have nf: "\<not> cell_true sol (sem_id sem) i (a + r)"
      using True assms(4) by simp
    have "scan_row st sol ?ss i [0..<?n] (0, False, out)
            = scan_row st sol ?ss i ([a..<a + r] @ ((a + r) # ([Suc (a + r)..<?n] @ []))) (0, False, out)"
      by (subst sp) (rule scan_false_stretch [OF assms(1) f1])
    also have "\<dots> = scan_row st sol ?ss i ((a + r) # ([Suc (a + r)..<?n] @ []))
                        (0 + int (length [a..<a + r]), False \<or> [a..<a + r] \<noteq> [], out)"
      by (rule scan_true_stretch [OF assms(1) t])
    also have "\<dots> = scan_row st sol ?ss i ((a + r) # ([Suc (a + r)..<?n] @ [])) (int r, True, out)"
      using assms(2) by simp
    also have "\<dots> = scan_row st sol ?ss i ([Suc (a + r)..<?n] @ [])
                        (0, False, out @ [block st (classes sem ! i) (nat (int (a + r) - int r)) (a + r - 1)])"
      by (rule scan_run_ends_by_false [OF assms(1) True nf]) (use assms(2) in simp_all)
    also have "\<dots> = scan_row st sol ?ss i [] (0, False, out @ [?blk])"
      using scan_false_stretch [OF assms(1) f2, of "[]" 0 "out @ [?blk]"] by simp
    finally show ?thesis by (simp only: scan_row.simps) blast
  next
    case False
    with assms(3) have eq: "a + r = ?n" by simp
    then have n1: "(?n - 1) + 1 = ?n" using assms(2) by simp
    have sp: "[0..<?n] = [0..<a] @ ([a..<?n - 1] @ [?n - 1])"
      using upt_split_last [of a ?n] eq assms(2) by simp
    have t: "\<forall>j \<in> set [a..<?n - 1]. j + 1 < ?n \<and> cell_true sol (sem_id sem) i j"
      using eq assms(4) by auto
    have lt: "cell_true sol (sem_id sem) i (?n - 1)"
      using eq assms(2,4) by simp
    have len: "int (length [a..<?n - 1]) = int r - 1" using eq assms(2) by auto
    have "scan_row st sol ?ss i [0..<?n] (0, False, out)
            = scan_row st sol ?ss i ([a..<?n - 1] @ [?n - 1]) (0, False, out)"
      by (subst sp) (rule scan_false_stretch [OF assms(1) f1])
    also have "\<dots> = scan_row st sol ?ss i [?n - 1]
                        (0 + int (length [a..<?n - 1]), False \<or> [a..<?n - 1] \<noteq> [], out)"
      by (rule scan_true_stretch [OF assms(1) t])
    also have "\<dots> = scan_row st sol ?ss i []
                        (0 + int (length [a..<?n - 1]) + 1, True,
                         out @ [block st (classes sem ! i)
                                  (nat (int (?n - 1) - (0 + int (length [a..<?n - 1])))) (?n - 1)])"
      by (rule scan_run_ends_with_row [OF assms(1) n1 lt]) (use eq assms(2) in auto)
    also have "nat (int (?n - 1) - (0 + int (length [a..<?n - 1]))) = a"
      using eq assms(2) len by simp
    also have "?n - 1 = a + r - 1" using eq by simp
    finally show ?thesis by (simp only: scan_row.simps) blast
  qed
qed

lemma scan_rows_single_runs:
  assumes "\<forall>i \<in> set is. i < length (classes sem) \<and> 1 \<le> r i \<and> a i + r i \<le> length (slots st) \<and>
             (\<forall>j < length (slots st). cell_true sol (sem_id sem) i j \<longleftrightarrow> a i \<le> j \<and> j < a i + r i)"
  shows "scan_rows st sol (SemesterSchedule sem st) is out =
           Inr (out @ map (\<lambda>i. block st (classes sem ! i) (a i) (a i + r i - 1)) is)"
  using assms
proof (induction "is" arbitrary: out)
  case Nil
  then show ?case by simp
next
  case (Cons i "is")
  then have i: "i < length (classes sem)" "1 \<le> r i" "a i + r i \<le> length (slots st)"
    "\<forall>j < length (slots st). cell_true sol (sem_id sem) i j \<longleftrightarrow> a i \<le> j \<and> j < a i + r i"
    by simp_all
  from scan_single_run [OF i, of out] obtain cnt prev where
    "scan_row st sol (SemesterSchedule sem st) i [0..<length (slots st)] (0, False, out) =
       Inr (cnt, prev, out @ [block st (classes sem ! i) (a i) (a i + r i - 1)])"
    by blast
  moreover have "scan_rows st sol (SemesterSchedule sem st) is
                   (out @ [block st (classes sem ! i) (a i) (a i + r i - 1)]) =
           Inr ((out @ [block st (classes sem ! i) (a i) (a i + r i - 1)]) @
                map (\<lambda>i. block st (classes sem ! i) (a i) (a i + r i - 1)) is)"
    by (rule Cons.IH) (use Cons.prems in simp)
  ultimately show ?case by simp
qed

lemma scan_row_total:
  assumes "i < length (classes sem)"
  shows "j \<le> length (slots st) \<Longrightarrow> 0 \<le> cnt \<Longrightarrow> cnt \<le> int j \<Longrightarrow> (prev \<longrightarrow> 1 \<le> cnt) \<Longrightarrow>
     \<exists>cnt' prev' ext. scan_row st sol (SemesterSchedule sem st) i [j..<length (slots st)] (cnt, prev, out)
        = Inr (cnt', prev', out @ ext)"
proof (induction "length (slots st) - j" arbitrary: j cnt prev out)
  case 0
  then show ?case by simp
next
  case (Suc d)
  let ?n = "length (slots st)" and ?ss = "SemesterSchedule sem st"
  let ?t = "cell_true sol (sem_id sem) i j"
  from Suc.hyps(2) have j: "j < ?n" by simp
  then have up: "[j..<?n] = j # [Suc j..<?n]" by (simp add: upt_conv_Cons)
  have d: "d = ?n - Suc j" using Suc.hyps(2) by simp
  have sj: "Suc j \<le> ?n" using j by simp
  show ?case
  proof (cases "prev \<and> \<not> ?t")
    case True
    with Suc.prems have c1: "1 \<le> cnt" by simp
    with Suc.prems have j1: "1 \<le> j" by linarith
    have "ClassSchedule st (classes sem ! i) (int (j - 1)) cnt =
            Inr (block st (classes sem ! i) (nat (int (j - 1) - cnt + 1)) (j - 1))"
      by (rule ClassSchedule_block) (use j j1 c1 Suc.prems in simp_all)
    moreover have "int (j - 1) = int j - 1" using j1 by simp
    ultimately obtain b where b: "ClassSchedule st (classes sem ! i) (int j - 1) cnt = Inr b"
      by simp
    from Suc.hyps(1) [OF d sj, of 0 False "out @ [b]"]
    obtain cnt' prev' ext where
      "scan_row st sol ?ss i [Suc j..<?n] (0, False, out @ [b]) = Inr (cnt', prev', (out @ [b]) @ ext)"
      by auto
    then have "scan_row st sol ?ss i [j..<?n] (cnt, prev, out) = Inr (cnt', prev', out @ (b # ext))"
      using True b by (simp add: up scan_row_step [OF assms j] Let_def del: scan_row.simps)
    then show ?thesis by blast
  next
    case False
    show ?thesis
    proof (cases "?t \<and> int j = int ?n - 1")
      case True
      have "ClassSchedule st (classes sem ! i) (int j) (cnt + 1) =
              Inr (block st (classes sem ! i) (nat (int j - (cnt + 1) + 1)) j)"
        by (rule ClassSchedule_block) (use j Suc.prems in simp_all)
      then obtain b where b: "ClassSchedule st (classes sem ! i) (int ?n - 1) (cnt + 1) = Inr b"
        using True by simp
      from Suc.hyps(1) [OF d sj, of "cnt + 1" True "out @ [b]"] Suc.prems
      obtain cnt' prev' ext where
        "scan_row st sol ?ss i [Suc j..<?n] (cnt + 1, True, out @ [b]) = Inr (cnt', prev', (out @ [b]) @ ext)"
        by auto
      then have "scan_row st sol ?ss i [j..<?n] (cnt, prev, out) = Inr (cnt', prev', out @ (b # ext))"
        using True False b by (simp add: up scan_row_step [OF assms j] Let_def del: scan_row.simps)
      then show ?thesis by blast
    next
      case F2: False
      let ?cnt = "if ?t then cnt + 1 else cnt"
      have inv: "0 \<le> ?cnt" "?cnt \<le> int (Suc j)" "?t \<longrightarrow> 1 \<le> ?cnt"
        using Suc.prems by auto
      from Suc.hyps(1) [OF d sj inv, of out]
      obtain cnt' prev' ext where
        "scan_row st sol ?ss i [Suc j..<?n] (?cnt, ?t, out) = Inr (cnt', prev', out @ ext)"
        by auto
      then have "scan_row st sol ?ss i [j..<?n] (cnt, prev, out) = Inr (cnt', prev', out @ ext)"
        using False F2 by (auto simp add: up scan_row_step [OF assms j] Let_def simp del: scan_row.simps)
      then show ?thesis by blast
    qed
  qed
qed

lemma scan_rows_total:
  "\<forall>i \<in> set is. i < length (classes sem) \<Longrightarrow>
   \<exists>bs. scan_rows st sol (SemesterSchedule sem st) is out = Inr bs"
proof (induction "is" arbitrary: out)
  case Nil
  then show ?case by simp
next
  case (Cons i "is")
  then have i: "i < length (classes sem)" by simp
  from scan_row_total [OF i, of 0 st 0 False sol out]
  obtain cnt' prev' ext where
    "scan_row st sol (SemesterSchedule sem st) i [0..<length (slots st)] (0, False, out)
       = Inr (cnt', prev', out @ ext)"
    by auto
  moreover from Cons have "\<exists>bs. scan_rows st sol (SemesterSchedule sem st) is (out @ ext) = Inr bs"
    by simp
  ultimately show ?case by simp
qed

lemma scan_rows_no_true:
  "\<forall>i \<in> set is. i < length (classes sem) \<and>
      (\<forall>j < length (slots st). \<not> cell_true sol (sem_id sem) i j) \<Longrightarrow>
   scan_rows st sol (SemesterSchedule sem st) is out = Inr out"
proof (induction "is")
  case Nil
  then show ?case by simp
next
  case (Cons i "is")
  then have i: "i < length (classes sem)"
    and f: "\<forall>j \<in> set [0..<length (slots st)]. j < length (slots st) \<and> \<not> cell_true sol (sem_id sem) i j"
    by simp_all
  from scan_false_stretch [OF i f, of "[]" 0 out] Cons show ?case by simp
qed

lemma consecutive_rows_create:
  assumes "spd \<noteq> 0"
  shows "\<forall>i \<in> set is. i < length (classes sem) \<and> 1 \<le> slot_count (classes sem ! i) \<and>
             valid_starts (length (slots st)) spd (slot_count (classes sem ! i)) \<noteq> [] \<Longrightarrow>
     \<exists>kl. consecutive_rows (SemesterSchedule sem st) spd is (kloc, model) =
       Inr (kl, model @ concat (map (\<lambda>i. consecutive_row_items (sem_id sem) (length (slots st)) spd i
                                             (slot_count (classes sem ! i))) is))"
proof (induction "is" arbitrary: kloc model)
  case Nil
  then show ?case by simp
next
  case (Cons i "is")
  let ?ss = "SemesterSchedule sem st"
  let ?m = "length (classes sem)" and ?n = "length (slots st)" and ?sid = "sem_id sem"
  let ?k = "slot_count (classes sem ! i)"
  let ?js = "py_range 0 (int ?n - ?k + 1)"
  let ?vs = "valid_starts ?n spd ?k"
  let ?Z = "Expr (unit_terms (map (zvar ?sid i ?k) ?vs)) 0"
  from Cons.prems have i: "i < ?m" and k: "1 \<le> ?k" and ne: "?vs \<noteq> []"
    and rest: "\<forall>i \<in> set is. i < ?m \<and> 1 \<le> slot_count (classes sem ! i) \<and>
                 valid_starts ?n spd (slot_count (classes sem ! i)) \<noteq> []" by auto
  have vm: "variables_matrix ?ss = create_variables_matrix ?sid ?m ?n"
    and sm: "semester ?ss = sem"
    by (simp_all add: SemesterSchedule_def)
  have c: "py_index (classes sem) (int i) = Inr (classes sem ! i)"
    using i by (simp add: py_index_nat)
  have n: "column_count (create_variables_matrix ?sid ?m ?n) = Inr ?n"
    using i by (cases "classes sem") (simp_all add: column_count_create)
  have fit: "\<forall>j \<in> set ?js. int j + ?k \<le> int ?n" by (auto simp: py_range_def)
  from window_loop_create [OF k i fit, of spd ?sid "[]" 0 kloc model] assms
  obtain kl1 where wl:
    "window_loop ?sid (create_variables_matrix ?sid ?m ?n) spd i ?k ?js (number 0, kloc, model) =
       Inr (?Z, kl1, model @ concat (map (window_items ?sid i ?k) ?vs))"
    by (auto simp: number_def valid_starts_def)
  have "compare ?Z EQ (number 1) = Constraint ?Z EQ (number 1)"
    using ne by (intro compare_terms) (simp add: unit_terms_def)
  then have add: "model_add (model @ concat (map (window_items ?sid i ?k) ?vs)) (compare ?Z EQ (number 1))
                    = Inr (model @ consecutive_row_items ?sid ?n spd i ?k)"
    by (simp add: model_add_Constraint consecutive_row_items_def)
  from Cons.IH [OF rest, of kl1 "model @ consecutive_row_items ?sid ?n spd i ?k"]
  obtain kl where
    "consecutive_rows ?ss spd is (kl1, model @ consecutive_row_items ?sid ?n spd i ?k) =
       Inr (kl, (model @ consecutive_row_items ?sid ?n spd i ?k) @
                concat (map (\<lambda>i. consecutive_row_items ?sid ?n spd i (slot_count (classes sem ! i))) is))"
    by blast
  then show ?case
    by (simp add: vm sm c n wl add)
qed

lemma no_valid_start:
  assumes "1 \<le> k" "spd < k"
  shows "valid_starts n spd k = []"
proof -
  have "\<not> valid_start spd k j" for j
  proof -
    consider "0 < spd" | "spd = 0" | "spd < 0" by linarith
    then show ?thesis
    proof cases
      case 1
      then have "0 \<le> int j mod spd" by simp
      with assms(2) show ?thesis by (simp add: valid_start_def)
    next
      case 2
      with assms(1) show ?thesis by (simp add: valid_start_def)
    next
      case 3
      then have "spd < int j mod spd" by (rule neg_mod_bound)
      with assms(1) show ?thesis by (simp add: valid_start_def)
    qed
  qed
  then show ?thesis by (simp add: valid_starts_def)
qed

lemma update_fresh: "k \<notin> fst ` set al \<Longrightarrow> AList.update k v al = al @ [(k, v)]"
  by (induction al) auto

lemma update_hd:
  "al \<noteq> [] \<Longrightarrow> hd (AList.update k v al) = (if fst (hd al) = k then (k, v) else hd al)"
  by (cases al) auto

lemma update_set: "p \<in> set (AList.update k v al) \<Longrightarrow> p = (k, v) \<or> p \<in> set al"
  by (induction al) (auto split: if_splits)

lemma update_classes_mset:
  "distinct (map fst al) \<Longrightarrow> map_of al k = Some g \<Longrightarrow>
   mset (concat (map (\<lambda>(k, g). gclasses g) (AList.update k (g\<lparr>gclasses := gclasses g @ [c]\<rparr>) al)))
     = mset (concat (map (\<lambda>(k, g). gclasses g) al)) + {#c#}"
proof (induction al)
  case Nil
  then show ?case by simp
next
  case (Cons p al)
  obtain k' g' where p: "p = (k', g')" by (cases p)
  show ?case
  proof (cases "k' = k")
    case True
    with Cons.prems p show ?thesis by simp
  next
    case False
    with Cons.prems p have "map_of al k = Some g" "distinct (map fst al)" by simp_all
    from Cons.IH [OF this(2,1)] False p show ?thesis by simp
  qed
qed

lemma map_of_hd:
  "al \<noteq> [] \<Longrightarrow> map_of al (fst (hd al)) = Some (snd (hd al))"
  by (cases al) auto

lemma groups_inv_add:
  assumes "groups_inv gs ids n seen" "nm \<notin> set (map fst ids)"
  shows "groups_inv (AList.update n (Group n nm) gs) (AList.update nm n ids) (n + 1) seen"
proof -
  from assms(1) have ne: "gs \<noteq> []" and h1: "fst (hd gs) = 1" and h2: "gname (snd (hd gs)) = ''''"
    and d: "distinct (map fst gs)" and lt: "\<forall>k \<in> set (map fst gs). k < n"
    and sync: "\<forall>nm k. map_of ids nm = Some k \<longrightarrow> (\<exists>g. map_of gs k = Some g \<and> gname g = nm)"
    and nm: "\<forall>(k, g) \<in> set gs. \<forall>c \<in> set (gclasses g). group_name c = gname g"
    and ms: "mset (concat (map (\<lambda>(k, g). gclasses g) gs)) = mset seen"
    unfolding groups_inv_def by blast+
  from lt have fresh: "n \<notin> fst ` set gs" by auto
  then have app: "AList.update n (Group n nm) gs = gs @ [(n, Group n nm)]"
    by (rule update_fresh)
  have "\<exists>g. map_of (AList.update n (Group n nm) gs) k = Some g \<and> gname g = nm'"
    if "map_of (AList.update nm n ids) nm' = Some k" for nm' k
  proof (cases "nm' = nm")
    case True
    with that have "k = n" by (simp add: update_conv')
    then show ?thesis using True by (simp add: update_conv' Group_def)
  next
    case False
    with that have "map_of ids nm' = Some k" by (simp add: update_conv')
    with sync obtain g where g: "map_of gs k = Some g" "gname g = nm'" by blast
    from g(1) have "(k, g) \<in> set gs" by (rule map_of_SomeD)
    with fresh have "k \<noteq> n" by force
    with g show ?thesis by (simp add: update_conv')
  qed
  then have "\<forall>nm' k. map_of (AList.update nm n ids) nm' = Some k \<longrightarrow>
               (\<exists>g. map_of (gs @ [(n, Group n nm)]) k = Some g \<and> gname g = nm')"
    unfolding app by blast
  moreover have "\<forall>k \<in> set (map fst (gs @ [(n, Group n nm)])). k < n + 1"
    using lt by auto
  moreover have "distinct (map fst (gs @ [(n, Group n nm)]))"
    using d fresh by auto
  moreover have "\<forall>(k, g) \<in> set (gs @ [(n, Group n nm)]). \<forall>c \<in> set (gclasses g). group_name c = gname g"
    using nm by (auto simp add: Group_def)
  moreover have "mset (concat (map (\<lambda>(k, g). gclasses g) (gs @ [(n, Group n nm)]))) = mset seen"
    using ms by (simp add: Group_def)
  ultimately show ?thesis
    unfolding app using ne h1 h2 by (simp add: groups_inv_def)
qed

lemma groups_inv_append:
  assumes "groups_inv gs ids n seen" "map_of ids (group_name c) = Some gid"
  shows "\<exists>g. map_of gs gid = Some g \<and>
             groups_inv (AList.update gid (g\<lparr>gclasses := gclasses g @ [c]\<rparr>) gs) ids n (seen @ [c])"
proof -
  from assms(1) have ne: "gs \<noteq> []" and h1: "fst (hd gs) = 1" and h2: "gname (snd (hd gs)) = ''''"
    and d: "distinct (map fst gs)" and lt: "\<forall>k \<in> set (map fst gs). k < n"
    and sync: "\<forall>nm k. map_of ids nm = Some k \<longrightarrow> (\<exists>g. map_of gs k = Some g \<and> gname g = nm)"
    and nm: "\<forall>(k, g) \<in> set gs. \<forall>c \<in> set (gclasses g). group_name c = gname g"
    and ms: "mset (concat (map (\<lambda>(k, g). gclasses g) gs)) = mset seen"
    unfolding groups_inv_def by blast+
  from sync assms(2) obtain g where g: "map_of gs gid = Some g" and gn: "gname g = group_name c"
    by blast
  let ?g' = "g\<lparr>gclasses := gclasses g @ [c]\<rparr>"
  let ?gs' = "AList.update gid ?g' gs"
  from g have mem: "(gid, g) \<in> set gs" by (rule map_of_SomeD)
  then have kin: "gid \<in> fst ` set gs" by force
  have ne': "?gs' \<noteq> []" using ne by (cases gs) auto
  have hd': "fst (hd ?gs') = 1 \<and> gname (snd (hd ?gs')) = ''''"
  proof (cases "fst (hd gs) = gid")
    case True
    with map_of_hd [OF ne] g have "snd (hd gs) = g" by simp
    with True h1 h2 show ?thesis by (simp add: update_hd [OF ne])
  next
    case False
    with h1 h2 show ?thesis by (simp add: update_hd [OF ne])
  qed
  have keys: "fst ` set ?gs' = fst ` set gs"
    using kin by (auto simp add: dom_update)
  have d': "distinct (map fst ?gs')" using d by (rule distinct_update)
  have lt': "\<forall>k \<in> set (map fst ?gs'). k < n" using lt keys by simp
  have sync': "\<exists>g'. map_of ?gs' k = Some g' \<and> gname g' = nm'" if "map_of ids nm' = Some k" for nm' k
  proof -
    from sync that obtain g0 where g0: "map_of gs k = Some g0" "gname g0 = nm'" by blast
    show ?thesis
    proof (cases "k = gid")
      case True
      with g0 g show ?thesis by (simp add: update_conv')
    next
      case False
      with g0 show ?thesis by (simp add: update_conv')
    qed
  qed
  have nm': "\<forall>(k, g) \<in> set ?gs'. \<forall>c \<in> set (gclasses g). group_name c = gname g"
  proof (clarify)
    fix k g0 c0 assume p: "(k, g0) \<in> set ?gs'" and c0: "c0 \<in> set (gclasses g0)"
    from update_set [OF p] consider "(k, g0) = (gid, ?g')" | "(k, g0) \<in> set gs" by blast
    then show "group_name c0 = gname g0"
    proof cases
      case 1
      with c0 have "c0 \<in> set (gclasses g) \<or> c0 = c" by auto
      with nm mem gn 1 show ?thesis by auto
    next
      case 2
      with nm c0 show ?thesis by auto
    qed
  qed
  have ms': "mset (concat (map (\<lambda>(k, g). gclasses g) ?gs')) = mset (seen @ [c])"
    using update_classes_mset [OF d g, of c] ms by simp
  from ne' hd' d' lt' sync' nm' ms' have "groups_inv ?gs' ids n (seen @ [c])"
    unfolding groups_inv_def by blast
  with g show ?thesis by blast
qed

lemma dict_get_Some: "map_of d k = Some v \<Longrightarrow> dict_get d k = Inr v"
  by (simp add: dict_get_def)

lemma init_groups_step_inv:
  assumes "groups_inv gs ids n seen"
  shows "\<exists>gs' ids' n'. init_groups_step c (gs, ids, n) = Inr (gs', ids', n') \<and>
           groups_inv gs' ids' n' (seen @ [c])"
proof (cases "group_name c \<in> set (map fst ids)")
  case True
  then obtain gid where gid: "map_of ids (group_name c) = Some gid"
    by (metis image_set map_of_eq_None_iff not_Some_eq)
  from groups_inv_append [OF assms gid] obtain g where
    g: "map_of gs gid = Some g"
    and inv: "groups_inv (AList.update gid (g\<lparr>gclasses := gclasses g @ [c]\<rparr>) gs) ids n (seen @ [c])"
    by blast
  have "init_groups_step c (gs, ids, n) =
          Inr (AList.update gid (g\<lparr>gclasses := gclasses g @ [c]\<rparr>) gs, ids, n)"
    using True by (simp add: init_groups_step_def dict_get_Some [OF gid] dict_get_Some [OF g])
  with inv show ?thesis by blast
next
  case False
  let ?gs1 = "AList.update n (Group n (group_name c)) gs"
  let ?ids1 = "AList.update (group_name c) n ids"
  from groups_inv_add [OF assms False] have inv1: "groups_inv ?gs1 ?ids1 (n + 1) seen" .
  have gid: "map_of ?ids1 (group_name c) = Some n" by (simp add: update_conv')
  from groups_inv_append [OF inv1 gid] obtain g where
    g: "map_of ?gs1 n = Some g"
    and inv: "groups_inv (AList.update n (g\<lparr>gclasses := gclasses g @ [c]\<rparr>) ?gs1) ?ids1 (n + 1) (seen @ [c])"
    by blast
  have "init_groups_step c (gs, ids, n) =
          Inr (AList.update n (g\<lparr>gclasses := gclasses g @ [c]\<rparr>) ?gs1, ?ids1, n + 1)"
    using False by (simp add: init_groups_step_def dict_get_Some [OF gid] dict_get_Some [OF g])
  with inv show ?thesis by blast
qed

lemma init_groups_loop_inv:
  "groups_inv gs ids n seen \<Longrightarrow>
   \<exists>gs' ids' n'. init_groups_loop cs (gs, ids, n) = Inr (gs', ids', n') \<and>
      groups_inv gs' ids' n' (seen @ cs)"
proof (induction cs arbitrary: gs ids n seen)
  case Nil
  then show ?case by simp
next
  case (Cons c cs)
  from init_groups_step_inv [OF Cons.prems, of c] obtain gs1 ids1 n1 where
    st: "init_groups_step c (gs, ids, n) = Inr (gs1, ids1, n1)"
    and inv: "groups_inv gs1 ids1 n1 (seen @ [c])" by blast
  from Cons.IH [OF inv] st show ?case by simp
qed

lemma groups_inv_init: "groups_inv [(1, Group 1 '''')] [('''', 1)] 2 []"
  by (simp add: groups_inv_def Group_def)

lemma sort_classes_loop_eq:
  "sort_classes_loop gs (acc, cs) =
     (acc @ map group_sort_classes gs, cs @ concat (map gclasses (map group_sort_classes gs)))"
  by (induction gs arbitrary: acc cs) simp_all

lemma sort_classes_eq:
  "sort_classes sem = sem\<lparr>groups := map group_sort_classes (groups sem),
                          classes := concat (map gclasses (map group_sort_classes (groups sem)))\<rparr>"
  by (simp add: sort_classes_def sort_classes_loop_eq)

lemma mset_concat_sum: "mset (concat xss) = sum_list (map mset xss)"
  by (induction xss) simp_all

lemma mset_concat_perm:
  "mset xss = mset yss \<Longrightarrow> mset (concat (map f xss)) = mset (concat (map f yss))"
proof -
  assume h: "mset xss = mset yss"
  have "sum_list (map (\<lambda>x. mset (f x)) xss) = sum_mset (image_mset (\<lambda>x. mset (f x)) (mset xss))"
    by (metis mset_map sum_mset_sum_list)
  also have "\<dots> = sum_list (map (\<lambda>x. mset (f x)) yss)"
    unfolding h by (metis mset_map sum_mset_sum_list)
  finally show ?thesis by (simp add: mset_concat_sum comp_def)
qed

lemma init_groups_result:
  "\<exists>gl. init_groups sem = Inr (sem\<lparr>groups := hd gl # sort_key gname (tl gl)\<rparr>) \<and>
        gl \<noteq> [] \<and> gname (hd gl) = '''' \<and>
        (\<forall>g \<in> set gl. \<forall>c \<in> set (gclasses g). group_name c = gname g) \<and>
        mset (concat (map gclasses gl)) = mset (classes sem)"
proof -
  from init_groups_loop_inv [OF groups_inv_init, of "classes sem"] obtain gs ids n where
    loop: "init_groups_loop (classes sem) ([(1, Group 1 '''')], [('''', 1)], 2) = Inr (gs, ids, n)"
    and inv: "groups_inv gs ids n (classes sem)" by auto
  let ?gl = "map snd gs"
  from inv have ne: "gs \<noteq> []" and h2: "gname (snd (hd gs)) = ''''"
    and nm: "\<forall>(k, g) \<in> set gs. \<forall>c \<in> set (gclasses g). group_name c = gname g"
    and ms: "mset (concat (map (\<lambda>(k, g). gclasses g) gs)) = mset (classes sem)"
    unfolding groups_inv_def by blast+
  have hd: "hd ?gl = snd (hd gs)" using ne by (simp add: hd_map)
  have "init_groups sem = Inr (sem\<lparr>groups := hd ?gl # sort_key gname (tl ?gl)\<rparr>)"
    using ne by (simp add: init_groups_def loop py_index_zero hd_conv_nth drop_Suc)
  moreover have "?gl \<noteq> []" using ne by simp
  moreover have "gname (hd ?gl) = ''''" using h2 hd by simp
  moreover have "\<forall>g \<in> set ?gl. \<forall>c \<in> set (gclasses g). group_name c = gname g"
    using nm by auto
  moreover have "map (\<lambda>(k, g). gclasses g) gs = map gclasses ?gl"
    by (induction gs) auto
  then have "mset (concat (map gclasses ?gl)) = mset (classes sem)"
    using ms by (simp only:)
  ultimately show ?thesis by blast
qed

lemma group_rows_snoc:
  "q < length gs \<Longrightarrow> group_rows (gs @ [g]) q = group_rows gs q"
  by (simp add: group_rows_def group_offset_def nth_append)

lemma group_rows_cover:
  "concat (map (group_rows gs) [0..<length gs]) = [0..<sum_list (map (\<lambda>g. length (gclasses g)) gs)]"
proof (induction gs rule: rev_induct)
  case Nil
  then show ?case by simp
next
  case (snoc g gs)
  let ?a = "sum_list (map (\<lambda>g. length (gclasses g)) gs)"
  have old: "map (group_rows (gs @ [g])) [0..<length gs] = map (group_rows gs) [0..<length gs]"
    by (simp add: group_rows_snoc)
  have new: "group_rows (gs @ [g]) (length gs) = [?a ..< ?a + length (gclasses g)]"
    by (simp add: group_rows_def group_offset_def)
  have split: "[0 ..< ?a + length (gclasses g)] = [0 ..< ?a] @ [?a ..< ?a + length (gclasses g)]"
    by (rule upt_add_eq_append) simp
  have "concat (map (group_rows (gs @ [g])) [0..<length (gs @ [g])]) =
          concat (map (group_rows gs) [0..<length gs]) @ group_rows (gs @ [g]) (length gs)"
    by (simp add: old)
  also have "\<dots> = [0 ..< ?a] @ [?a ..< ?a + length (gclasses g)]"
    by (simp only: snoc.IH new)
  also have "\<dots> = [0 ..< ?a + length (gclasses g)]"
    by (simp only: split)
  finally show ?case by simp
qed

lemma length_concat_classes:
  "length (concat (map gclasses gs)) = sum_list (map (\<lambda>g. length (gclasses g)) gs)"
  by (simp add: length_concat comp_def)

section \<open>The claims\<close>

subsection \<open>The contiguity encoding\<close>

text \<open>
  In exact arithmetic the encoding of a window is right. For a class row of required length
  \<open>k \<ge> 1\<close> and a window start \<open>j\<close> whose window fits the calendar, the loop body with exact
  division emits two constraints, \<open>z \<le> x / k\<close> and \<open>z \<ge> x - k + 1\<close>, and under every 0/1
  assignment both hold if and only if the indicator \<open>z\<close> is 1 exactly when all \<open>k\<close> cells of
  the window are 1 (that is, when \<open>x = k\<close>).
\<close>

theorem window_indicator_exact:
  assumes "1 \<le> k" "i < m" "int j + k \<le> int n"
  shows "\<exists>z kl c1 c2.
           window_body sid (create_variables_matrix sid m n) i k j kloc = Inr (z, kl, [c1, c2]) \<and>
           (\<forall>a. (holds a c1 \<and> holds a c2) \<longleftrightarrow>
                 (a z \<longleftrightarrow> (\<forall>t \<in> {j ..< j + nat k}. a (XVar sid i t))))"
proof -
  obtain c1 c2 where cs: "window_items sid i k j = [c1, c2]"
    by (simp add: window_items_def)
  have "(holds a c1 \<and> holds a c2) \<longleftrightarrow>
          (a (zvar sid i k j) \<longleftrightarrow> (\<forall>t \<in> {j ..< j + nat k}. a (XVar sid i t)))" for a
    using window_items_sem [OF assms(1), of a sid i j] by (simp add: cs)
  then show ?thesis
    using window_body_items [OF assms, of sid kloc] cs by auto
qed

theorem window_indicator_exact_witness:
  "\<exists>z kl c1 c2.
     window_body 1 (create_variables_matrix 1 1 3) 0 2 1 None = Inr (z, kl, [c1, c2]) \<and>
     (\<forall>a. (holds a c1 \<and> holds a c2) \<longleftrightarrow>
           (a z \<longleftrightarrow> (\<forall>t \<in> {1 ..< 1 + nat 2}. a (XVar 1 0 t))))"
  using window_indicator_exact [of 2 0 1 1 3 1 None] by simp


text \<open>
  Claim C1. Take the constraints that \<open>_set_constraints_match_class_slot_count\<close> and then
  \<open>_set_constraints_consecutive_slots\<close> add to the model of a semester schedule, and a 0/1
  assignment satisfying all of them. Then for every class row \<open>i\<close> of required length
  \<open>k \<ge> 1\<close> the set of slots assigned to the row is exactly one run \<open>s, ..., s + k - 1\<close> of
  consecutive slot indices, the run fits the calendar, its offset within the day
  \<open>s mod slots_per_day\<close> is at most \<open>slots_per_day - k\<close>, and so its first and last slot are
  on the same day.
\<close>

theorem consecutive_single_run_within_day:
  assumes "set_constraints_match_class_slot_count (SemesterSchedule sem st) model0 = Inr model1"
    and "set_constraints_consecutive_slots days st (SemesterSchedule sem st) model1 = Inr model2"
    and "feasible a model2"
    and "i < length (classes sem)"
    and "1 \<le> slot_count (classes sem ! i)"
  shows "\<exists>s. {j. j < length (slots st) \<and> a (XVar (sem_id sem) i j)}
                = {s ..< s + nat (slot_count (classes sem ! i))} \<and>
             s + nat (slot_count (classes sem ! i)) \<le> length (slots st) \<and>
             int s mod (int (length (slots st)) div days)
                \<le> int (length (slots st)) div days - slot_count (classes sem ! i) \<and>
             int s div (int (length (slots st)) div days)
                = (int s + slot_count (classes sem ! i) - 1) div (int (length (slots st)) div days)"
proof -
  let ?ss = "SemesterSchedule sem st"
  let ?m = "length (classes sem)" and ?n = "length (slots st)" and ?sid = "sem_id sem"
  let ?k = "slot_count (classes sem ! i)"
  let ?spd = "int ?n div days"
  have vm: "length (variables_matrix ?ss) = ?m"
    by (simp add: SemesterSchedule_def create_variables_matrix_def)
  from set_constraints_consecutive_slots_Inr [OF assms(2)] obtain kl where
    rows: "consecutive_rows ?ss ?spd [0..<?m] (None, model1) = Inr (kl, model2)"
    unfolding vm by blast
  from assms(1) have mrows: "match_rows ?ss [0..<?m] model0 = Inr model1"
    by (simp add: set_constraints_match_class_slot_count_def vm)
  have iin: "i \<in> set [0..<?m]" using assms(4) by simp
  from consecutive_rows_prefix [OF rows] obtain ext where ext: "model2 = model1 @ ext" by blast
  from assms(3) ext have f1: "feasible a model1" by (simp add: feasible_append)
  from match_rows_row [OF mrows iin assms(4) f1]
  have "(of_nat (count_true a (map (\<lambda>j. XVar ?sid i j) [0..<?n])) :: rat) = of_int ?k"
    by (simp add: match_row_item_def holds_compare eval_unit_terms eval_number del: eval.simps)
  then have "(of_int (int (count_true a (map (\<lambda>j. XVar ?sid i j) [0..<?n]))) :: rat) = of_int ?k"
    by simp
  then have "int (count_true a (map (\<lambda>j. XVar ?sid i j) [0..<?n])) = ?k"
    by (simp only: of_int_eq_iff)
  then have cnt: "length (filter (\<lambda>j. a (XVar ?sid i j)) [0..<?n]) = nat ?k"
    by (simp add: count_true_map)
  have sub: "set (consecutive_row_items ?sid ?n ?spd i ?k) \<subseteq> set model2"
    using consecutive_rows_row [OF rows iin assms(4,5)] by (rule conjunct1)
  let ?vs = "valid_starts ?n ?spd ?k"
  have "compare (Expr (unit_terms (map (zvar ?sid i ?k) ?vs)) 0) EQ (number 1) \<in> set model2"
    using sub by (auto simp: consecutive_row_items_def)
  from feasible_mem [OF assms(3) this]
  have "(of_nat (count_true a (map (zvar ?sid i ?k) ?vs)) :: rat) = 1"
    by (simp add: holds_compare eval_unit_terms eval_number del: eval.simps)
  then have "count_true a (map (zvar ?sid i ?k) ?vs) = 1"
    by (metis of_nat_1 of_nat_eq_iff)
  then have "\<exists>v \<in> set (map (zvar ?sid i ?k) ?vs). a v"
    by (intro count_true_pos) simp
  then obtain s where s: "s \<in> set ?vs" and zs: "a (zvar ?sid i ?k s)" by auto
  have "set (window_items ?sid i ?k s) \<subseteq> set model2"
    using sub s by (auto simp: consecutive_row_items_def)
  then have "list_all (holds a) (window_items ?sid i ?k s)"
    using assms(3) by (auto simp: list_all_iff feasible_def)
  with window_items_sem [OF assms(5), of a ?sid i s] zs
  have full: "\<forall>t \<in> {s ..< s + nat ?k}. a (XVar ?sid i t)" by simp
  from s have fit: "s + nat ?k \<le> ?n" and valid: "int s mod ?spd \<le> ?spd - ?k"
    using assms(5) by (auto simp: valid_starts_def valid_start_def py_range_def)
  have run: "{j. j < ?n \<and> a (XVar ?sid i j)} = {s ..< s + nat ?k}"
    by (rule single_run [OF cnt fit full])
  have pos: "0 < ?spd"
  proof (rule ccontr)
    assume "\<not> 0 < ?spd"
    then consider "?spd = 0" | "?spd < 0" by linarith
    then show False
    proof cases
      case 1
      with valid assms(5) show False by simp
    next
      case 2
      then have "?spd < int s mod ?spd" by (rule neg_mod_bound)
      with valid assms(5) show False by linarith
    qed
  qed
  have "(int s + ?k - 1) div ?spd = int s div ?spd"
    by (rule same_day [OF pos assms(5) valid])
  with run fit valid show ?thesis by (intro exI [of _ s]) simp
qed

theorem consecutive_single_run_within_day_witness:
  "\<exists>s. {j. j < length (slots ex_storage3) \<and> ex_assignment1 (XVar (sem_id ex_sem1) 0 j)}
                = {s ..< s + nat (slot_count (classes ex_sem1 ! 0))} \<and>
             s + nat (slot_count (classes ex_sem1 ! 0)) \<le> length (slots ex_storage3) \<and>
             int s mod (int (length (slots ex_storage3)) div 1)
                \<le> int (length (slots ex_storage3)) div 1 - slot_count (classes ex_sem1 ! 0) \<and>
             int s div (int (length (slots ex_storage3)) div 1)
                = (int s + slot_count (classes ex_sem1 ! 0) - 1) div (int (length (slots ex_storage3)) div 1)"
proof -
  let ?ss = "SemesterSchedule ex_sem1 ex_storage3"
  let ?m1 = "projr (set_constraints_match_class_slot_count ?ss [])"
  let ?m2 = "projr (set_constraints_consecutive_slots 1 ex_storage3 ?ss ?m1)"
  have h1: "set_constraints_match_class_slot_count ?ss [] = Inr ?m1" by code_simp
  have h2: "set_constraints_consecutive_slots 1 ex_storage3 ?ss ?m1 = Inr ?m2" by code_simp
  have h3: "feasible ex_assignment1 ?m2" by code_simp
  have h4: "0 < length (classes ex_sem1)" by code_simp
  have h5: "1 \<le> slot_count (classes ex_sem1 ! 0)" by code_simp
  show ?thesis
    by (rule consecutive_single_run_within_day [OF h1 h2 h3 h4 h5])
qed

text \<open>
  Claim C5. Under every 0/1 assignment that satisfies the row-sum constraints of a semester
  schedule, the unallocated-slot fragment of the objective evaluates to minus the sum of the
  semester's slot counts. So it has the same value under any two such assignments, and
  adding it to any other objective \<open>g\<close> does not change how the two compare.
\<close>

theorem unallocated_objective_constant:
  assumes "set_constraints_match_class_slot_count (SemesterSchedule sem st) model0 = Inr model1"
    and "feasible a model1" and "feasible b model1"
  shows "\<exists>obj. get_objective_function_unallocated_class_slots (SemesterSchedule sem st) = Inr obj \<and>
           eval a obj = - of_int (sum_list (map slot_count (classes sem))) \<and>
           eval b obj = eval a obj \<and>
           (\<forall>g. (eval a (add_expr obj g) \<le> eval b (add_expr obj g)) = (eval a g \<le> eval b g))"
proof -
  from objective_value [OF assms(1,2)] obtain obj where
    obj: "get_objective_function_unallocated_class_slots (SemesterSchedule sem st) = Inr obj"
    and va: "eval a obj = - of_int (sum_list (map slot_count (classes sem)))"
    by blast
  from objective_value [OF assms(1,3)] obj
  have vb: "eval b obj = - of_int (sum_list (map slot_count (classes sem)))"
    by auto
  have "(eval a (add_expr obj g) \<le> eval b (add_expr obj g)) = (eval a g \<le> eval b g)" for g
    by (simp add: eval_add_expr va vb)
  with obj va vb show ?thesis by auto
qed

theorem unallocated_objective_constant_witness:
  "\<exists>obj. get_objective_function_unallocated_class_slots (SemesterSchedule ex_sem1 ex_storage3) = Inr obj \<and>
     eval ex_assignment1 obj = - of_int (sum_list (map slot_count (classes ex_sem1))) \<and>
     eval ex_assignment2 obj = eval ex_assignment1 obj \<and>
     (\<forall>g. (eval ex_assignment1 (add_expr obj g) \<le> eval ex_assignment2 (add_expr obj g))
            = (eval ex_assignment1 g \<le> eval ex_assignment2 g))"
proof -
  let ?ss = "SemesterSchedule ex_sem1 ex_storage3"
  let ?m1 = "projr (set_constraints_match_class_slot_count ?ss [])"
  have h1: "set_constraints_match_class_slot_count ?ss [] = Inr ?m1" by code_simp
  have h2: "feasible ex_assignment1 ?m1" by code_simp
  have h3: "feasible ex_assignment2 ?m1" by code_simp
  show ?thesis
    by (rule unallocated_objective_constant [OF h1 h2 h3])
qed

text \<open>
  Claim C3. For semester schedules built over one storage, \<open>set_global_constraints\<close> never
  fails and adds, for every teacher of the catalog (in order) and every slot index, exactly
  one item: the comparison \<open>sum \<le> 1\<close> of the sum, over every semester schedule and every class
  of that semester that contains the teacher, of the class's variable at that slot. In every
  assignment satisfying the resulting model, two classes (of the same or of different
  semesters) that contain the same teacher of the catalog are never both active at the
  same slot.
\<close>

theorem teacher_never_double_booked:
  assumes "sss = map (\<lambda>sem. SemesterSchedule sem st) sems"
  shows "set_global_constraints st sss model =
           Inr (model @ concat (map (\<lambda>t. map (teacher_item sems t) [0..<length (slots st)])
                                  (map snd (st_teachers st)))) \<and>
         (\<forall>a t i p j p' j'.
            feasible a (projr (set_global_constraints st sss model)) \<and>
            t \<in> set (map snd (st_teachers st)) \<and> i < length (slots st) \<and>
            p < length sems \<and> j < length (classes (sems ! p)) \<and>
            p' < length sems \<and> j' < length (classes (sems ! p')) \<and>
            contains_teacher (classes (sems ! p) ! j) t \<and>
            contains_teacher (classes (sems ! p') ! j') t \<and>
            a (XVar (sem_id (sems ! p)) j i) \<and> a (XVar (sem_id (sems ! p')) j' i)
            \<longrightarrow> p = p' \<and> j = j')"
proof (rule conjI)
  show res: "set_global_constraints st sss model =
           Inr (model @ concat (map (\<lambda>t. map (teacher_item sems t) [0..<length (slots st)])
                                  (map snd (st_teachers st))))"
    unfolding assms set_global_constraints_def by (rule global_teachers_create)
  show "\<forall>a t i p j p' j'.
            feasible a (projr (set_global_constraints st sss model)) \<and>
            t \<in> set (map snd (st_teachers st)) \<and> i < length (slots st) \<and>
            p < length sems \<and> j < length (classes (sems ! p)) \<and>
            p' < length sems \<and> j' < length (classes (sems ! p')) \<and>
            contains_teacher (classes (sems ! p) ! j) t \<and>
            contains_teacher (classes (sems ! p') ! j') t \<and>
            a (XVar (sem_id (sems ! p)) j i) \<and> a (XVar (sem_id (sems ! p')) j' i)
            \<longrightarrow> p = p' \<and> j = j'"
  proof (intro allI impI)
  fix a t i p j p' j'
  assume h: "feasible a (projr (set_global_constraints st sss model)) \<and>
            t \<in> set (map snd (st_teachers st)) \<and> i < length (slots st) \<and>
            p < length sems \<and> j < length (classes (sems ! p)) \<and>
            p' < length sems \<and> j' < length (classes (sems ! p')) \<and>
            contains_teacher (classes (sems ! p) ! j) t \<and>
            contains_teacher (classes (sems ! p') ! j') t \<and>
            a (XVar (sem_id (sems ! p)) j i) \<and> a (XVar (sem_id (sems ! p')) j' i)"
  let ?row = "\<lambda>sem. map (\<lambda>j. XVar (sem_id sem) j i) (teacher_rows t (classes sem))"
  let ?xss = "map ?row sems"
  let ?ts = "map snd (st_teachers st)"
  from h have tin: "t \<in> set ?ts" and il: "i < length (slots st)" by simp_all
  have "teacher_item sems t i \<in> set (map (teacher_item sems t) [0..<length (slots st)])"
    using il by simp
  moreover have "map (teacher_item sems t) [0..<length (slots st)]
                   \<in> set (map (\<lambda>t. map (teacher_item sems t) [0..<length (slots st)]) ?ts)"
    using tin by (simp only: set_map) (rule imageI)
  ultimately have "teacher_item sems t i
      \<in> set (concat (map (\<lambda>t. map (teacher_item sems t) [0..<length (slots st)]) ?ts))"
    unfolding set_concat by blast
  then have "teacher_item sems t i \<in> set (projr (set_global_constraints st sss model))"
    by (simp only: res sum.sel set_append) simp
  with h have "holds a (teacher_item sems t i)"
    by (intro feasible_mem [of a "projr (set_global_constraints st sss model)"]) simp_all
  then have "(of_nat (count_true a (teacher_vars sems t i)) :: rat) \<le> 1"
    by (simp add: teacher_item_def holds_compare eval_unit_terms eval_number del: eval.simps)
  then have le: "count_true a (concat ?xss) \<le> 1"
    by (simp add: teacher_vars_def)
  have mem: "XVar (sem_id (sems ! p)) j i \<in> set (?xss ! p)"
    using h by (simp add: teacher_rows_def)
  have mem': "XVar (sem_id (sems ! p')) j' i \<in> set (?xss ! p')"
    using h by (simp add: teacher_rows_def)
  have pp: "p = p'"
  proof (rule ccontr)
    assume "p \<noteq> p'"
    then consider "p < p'" | "p' < p" by linarith
    then show False
    proof cases
      case 1
      show False
        by (rule count_true_two_lists [OF le 1 _ mem _ mem']) (use h in simp_all)
    next
      case 2
      show False
        by (rule count_true_two_lists [OF le 2 _ mem' _ mem]) (use h in simp_all)
    qed
  qed
  have "?xss ! p \<in> set ?xss" using h by (intro nth_mem) simp
  then have "count_true a (?xss ! p) \<le> count_true a (concat ?xss)"
    by (rule count_true_concat_mem)
  with le have le1: "count_true a (map (\<lambda>j. XVar (sem_id (sems ! p)) j i)
                        (teacher_rows t (classes (sems ! p)))) \<le> 1"
    using h by simp
  have "j = j'"
    by (rule count_true_one_list [OF le1]) (use h pp in \<open>simp_all add: teacher_rows_def\<close>)
  with pp show "p = p' \<and> j = j'" by simp
  qed
qed

theorem teacher_never_double_booked_witness:
  "(feasible ex_assignment3
      (projr (set_global_constraints ex_storage_t
                (map (\<lambda>sem. SemesterSchedule sem ex_storage_t) [ex_sem2, ex_sem3]) [])) \<and>
    ex_teacher 7 \<in> set (map snd (st_teachers ex_storage_t)) \<and>
    0 < length (slots ex_storage_t) \<and>
    0 < length [ex_sem2, ex_sem3] \<and> 0 < length (classes ([ex_sem2, ex_sem3] ! 0)) \<and>
    contains_teacher (classes ([ex_sem2, ex_sem3] ! 0) ! 0) (ex_teacher 7) \<and>
    ex_assignment3 (XVar (sem_id ([ex_sem2, ex_sem3] ! 0)) 0 0)) \<and>
   set_global_constraints ex_storage_t
     (map (\<lambda>sem. SemesterSchedule sem ex_storage_t) [ex_sem2, ex_sem3]) [] =
     Inr ([] @ concat (map (\<lambda>t. map (teacher_item [ex_sem2, ex_sem3] t) [0..<length (slots ex_storage_t)])
                         (map snd (st_teachers ex_storage_t)))) \<and>
   ((0::nat) = 0 \<and> (0::nat) = 0)"
proof -
  let ?sss = "map (\<lambda>sem. SemesterSchedule sem ex_storage_t) [ex_sem2, ex_sem3]"
  have f: "feasible ex_assignment3 (projr (set_global_constraints ex_storage_t ?sss []))"
    by code_simp
  have t: "ex_teacher 7 \<in> set (map snd (st_teachers ex_storage_t))" by code_simp
  have i: "0 < length (slots ex_storage_t)" by code_simp
  have p: "0 < length [ex_sem2, ex_sem3]" by simp
  have j: "0 < length (classes ([ex_sem2, ex_sem3] ! 0))" by code_simp
  have c: "contains_teacher (classes ([ex_sem2, ex_sem3] ! 0) ! 0) (ex_teacher 7)" by code_simp
  have x: "ex_assignment3 (XVar (sem_id ([ex_sem2, ex_sem3] ! 0)) 0 0)" by code_simp
  note inst = teacher_never_double_booked [OF refl, of ex_storage_t "[ex_sem2, ex_sem3]" "[]"]
  from inst have res: "set_global_constraints ex_storage_t ?sss [] =
     Inr ([] @ concat (map (\<lambda>t. map (teacher_item [ex_sem2, ex_sem3] t) [0..<length (slots ex_storage_t)])
                         (map snd (st_teachers ex_storage_t))))"
    by (rule conjunct1)
  from inst [THEN conjunct2, rule_format, of ex_assignment3 "ex_teacher 7" 0 0 0 0 0] f t i p j c x
  have "(0::nat) = 0 \<and> (0::nat) = 0" by blast
  with f t i p j c x res show ?thesis by blast
qed

text \<open>
  Claim C4. For a semester whose class list is the concatenation of its groups' class lists
  (common group first), \<open>_set_constraints_class_limits_per_slot\<close> adds, for every slot column
  in order: one item bounding the sum of the common group's rows at that slot by 1 when there
  is no non-common group; otherwise one item per non-common group bounding the sum of the
  common group's rows plus that group's rows at that slot by 1. Every assignment satisfying
  the result has, at every slot, at most one active row among the rows of the common group
  and of any single group. Two different non-common groups may both be active at one slot:
  the last conjunct is an assignment that satisfies the constraints of a semester with
  groups \<open>''''\<close>, \<open>''a''\<close>, \<open>''b''\<close> and has the rows of \<open>''a''\<close> and \<open>''b''\<close> both active at slot 0.
\<close>

theorem class_limits_per_slot:
  assumes "groups sem \<noteq> []"
    and "classes sem = concat (map gclasses (groups sem))"
    and "classes sem \<noteq> []"
  shows "set_constraints_class_limits_per_slot (SemesterSchedule sem st) model =
           Inr (model @ concat (map (slot_items sem) [0..<length (slots st)])) \<and>
         (\<forall>i. slot_items sem i =
            (if non_common_groups sem = []
             then [limit_item (sem_id sem) i (group_rows (groups sem) 0)]
             else map (\<lambda>q. limit_item (sem_id sem) i
                               (group_rows (groups sem) 0 @ group_rows (groups sem) q))
                    [1..<length (groups sem)])) \<and>
         (\<forall>q j. q < length (groups sem) \<and> j < length (gclasses (groups sem ! q)) \<longrightarrow>
            classes sem ! (group_rows (groups sem) q ! j) = gclasses (groups sem ! q) ! j) \<and>
         (\<forall>a i q r r'.
            feasible a (projr (set_constraints_class_limits_per_slot (SemesterSchedule sem st) model)) \<and>
            i < length (slots st) \<and> q < length (groups sem) \<and>
            r \<in> set (group_rows (groups sem) 0) \<union> set (group_rows (groups sem) q) \<and>
            r' \<in> set (group_rows (groups sem) 0) \<union> set (group_rows (groups sem) q) \<and>
            a (XVar (sem_id sem) r i) \<and> a (XVar (sem_id sem) r' i)
            \<longrightarrow> r = r') \<and>
         (feasible ex_assignment4
            (projr (set_constraints_class_limits_per_slot (SemesterSchedule ex_sem4 ex_storage_t) [])) \<and>
          ex_assignment4 (XVar (sem_id ex_sem4) (group_rows (groups ex_sem4) 1 ! 0) 0) \<and>
          ex_assignment4 (XVar (sem_id ex_sem4) (group_rows (groups ex_sem4) 2 ! 0) 0))"
proof (intro conjI)
  let ?gs = "groups sem" and ?sid = "sem_id sem" and ?n = "length (slots st)"
  have sum: "sum_list (map (\<lambda>g. length (gclasses g)) ?gs) \<le> length (classes sem)"
    by (simp add: assms(2) length_concat comp_def)
  show res: "set_constraints_class_limits_per_slot (SemesterSchedule sem st) model =
           Inr (model @ concat (map (slot_items sem) [0..<?n]))"
    by (rule class_limits_create [OF assms(1) sum assms(3)])
  show "\<forall>i. slot_items sem i =
            (if non_common_groups sem = []
             then [limit_item ?sid i (group_rows ?gs 0)]
             else map (\<lambda>q. limit_item ?sid i (group_rows ?gs 0 @ group_rows ?gs q))
                    [1..<length ?gs])"
    using assms(1) by (simp add: slot_items_def non_common_groups_def)
  show "\<forall>q j. q < length ?gs \<and> j < length (gclasses (?gs ! q)) \<longrightarrow>
            classes sem ! (group_rows ?gs q ! j) = gclasses (?gs ! q) ! j"
  proof (intro allI impI)
    fix q j
    assume h: "q < length ?gs \<and> j < length (gclasses (?gs ! q))"
    have "concat (map gclasses ?gs) ! (sum_list (map length (take q (map gclasses ?gs))) + j)
            = map gclasses ?gs ! q ! j"
      by (rule concat_nth_offset) (use h in simp_all)
    moreover have "group_rows ?gs q ! j = sum_list (map length (take q (map gclasses ?gs))) + j"
      using h by (simp add: group_rows_def group_offset_def take_map comp_def)
    ultimately show "classes sem ! (group_rows ?gs q ! j) = gclasses (?gs ! q) ! j"
      using h by (simp add: assms(2))
  qed
  show "\<forall>a i q r r'.
            feasible a (projr (set_constraints_class_limits_per_slot (SemesterSchedule sem st) model)) \<and>
            i < ?n \<and> q < length ?gs \<and>
            r \<in> set (group_rows ?gs 0) \<union> set (group_rows ?gs q) \<and>
            r' \<in> set (group_rows ?gs 0) \<union> set (group_rows ?gs q) \<and>
            a (XVar ?sid r i) \<and> a (XVar ?sid r' i)
            \<longrightarrow> r = r'"
  proof (intro allI impI)
    fix a i q r r'
    assume h: "feasible a (projr (set_constraints_class_limits_per_slot (SemesterSchedule sem st) model)) \<and>
            i < ?n \<and> q < length ?gs \<and>
            r \<in> set (group_rows ?gs 0) \<union> set (group_rows ?gs q) \<and>
            r' \<in> set (group_rows ?gs 0) \<union> set (group_rows ?gs q) \<and>
            a (XVar ?sid r i) \<and> a (XVar ?sid r' i)"
    then have feas: "\<forall>it \<in> set (slot_items sem i). holds a it"
      by (auto simp: res feasible_def list_all_iff)
    have "\<exists>rows. distinct rows \<and> r \<in> set rows \<and> r' \<in> set rows \<and>
                  count_true a (col_vars ?sid i rows) \<le> 1"
    proof (cases "length ?gs \<le> 1")
      case True
      with h have q0: "q = 0" by simp
      from True feas have "count_true a (col_vars ?sid i (group_rows ?gs 0)) \<le> 1"
        by (simp add: slot_items_def limit_item_holds)
      moreover have "distinct (group_rows ?gs 0)" by (simp add: group_rows_def)
      ultimately show ?thesis using h q0 by auto
    next
      case False
      define q1 where "q1 = (if q = 0 then 1 else q)"
      have q1: "1 \<le> q1" "q1 < length ?gs" using h False by (simp_all add: q1_def)
      then have "q1 \<in> set [1..<length ?gs]" by simp
      with False feas have "holds a (limit_item ?sid i (group_rows ?gs 0 @ group_rows ?gs q1))"
        by (simp add: slot_items_def)
      then have "count_true a (col_vars ?sid i (group_rows ?gs 0 @ group_rows ?gs q1)) \<le> 1"
        by (simp only: limit_item_holds)
      moreover have "distinct (group_rows ?gs 0 @ group_rows ?gs q1)"
        by (rule distinct_two_groups [OF q1])
      moreover have "r \<in> set (group_rows ?gs 0 @ group_rows ?gs q1)"
        "r' \<in> set (group_rows ?gs 0 @ group_rows ?gs q1)"
        using h by (auto simp: q1_def)
      ultimately show ?thesis by blast
    qed
    then obtain rows where "distinct rows" "r \<in> set rows" "r' \<in> set rows"
      "count_true a (map (\<lambda>j. XVar ?sid j i) rows) \<le> 1"
      by (auto simp: col_vars_def)
    from count_true_one_list [OF this(4,1,2,3)] h show "r = r'" by simp
  qed
  show "feasible ex_assignment4
            (projr (set_constraints_class_limits_per_slot (SemesterSchedule ex_sem4 ex_storage_t) []))"
    by code_simp
  show "ex_assignment4 (XVar (sem_id ex_sem4) (group_rows (groups ex_sem4) 1 ! 0) 0)"
    by code_simp
  show "ex_assignment4 (XVar (sem_id ex_sem4) (group_rows (groups ex_sem4) 2 ! 0) 0)"
    by code_simp
qed

theorem class_limits_per_slot_witness:
  "(groups ex_sem4 \<noteq> [] \<and> classes ex_sem4 = concat (map gclasses (groups ex_sem4)) \<and>
    classes ex_sem4 \<noteq> []) \<and>
   set_constraints_class_limits_per_slot (SemesterSchedule ex_sem4 ex_storage_t) [] =
     Inr ([] @ concat (map (slot_items ex_sem4) [0..<length (slots ex_storage_t)])) \<and>
   ((1::nat) < length (groups ex_sem4) \<and> (0::nat) < length (gclasses (groups ex_sem4 ! 1)) \<and>
    classes ex_sem4 ! (group_rows (groups ex_sem4) 1 ! 0) = gclasses (groups ex_sem4 ! 1) ! 0) \<and>
   (feasible ex_assignment4
      (projr (set_constraints_class_limits_per_slot (SemesterSchedule ex_sem4 ex_storage_t) [])) \<and>
    (0::nat) < length (slots ex_storage_t) \<and>
    (1::nat) \<in> set (group_rows (groups ex_sem4) 0) \<union> set (group_rows (groups ex_sem4) 1) \<and>
    ex_assignment4 (XVar (sem_id ex_sem4) 1 0) \<and> (1::nat) = 1)"
proof -
  have a1: "groups ex_sem4 \<noteq> []" by code_simp
  have a2: "classes ex_sem4 = concat (map gclasses (groups ex_sem4))" by code_simp
  have a3: "classes ex_sem4 \<noteq> []" by code_simp
  note inst = class_limits_per_slot [OF a1 a2 a3, of ex_storage_t "[]"]
  have q: "(1::nat) < length (groups ex_sem4)" by code_simp
  have j: "(0::nat) < length (gclasses (groups ex_sem4 ! 1))" by code_simp
  have f: "feasible ex_assignment4
      (projr (set_constraints_class_limits_per_slot (SemesterSchedule ex_sem4 ex_storage_t) []))"
    by code_simp
  have i: "(0::nat) < length (slots ex_storage_t)" by code_simp
  have r: "(1::nat) \<in> set (group_rows (groups ex_sem4) 0) \<union> set (group_rows (groups ex_sem4) 1)"
    by code_simp
  have x: "ex_assignment4 (XVar (sem_id ex_sem4) 1 0)" by code_simp
  from inst have res: "set_constraints_class_limits_per_slot (SemesterSchedule ex_sem4 ex_storage_t) [] =
     Inr ([] @ concat (map (slot_items ex_sem4) [0..<length (slots ex_storage_t)]))"
    by (rule conjunct1)
  from inst q j have cls: "classes ex_sem4 ! (group_rows (groups ex_sem4) 1 ! 0)
                             = gclasses (groups ex_sem4 ! 1) ! 0"
    by blast
  from inst f i q r x have "(1::nat) = 1" by blast
  with a1 a2 a3 res q j cls f i r x show ?thesis by blast
qed

text \<open>
  Claim C7. If in the solved matrix every class row \<open>i\<close> has exactly one maximal run of
  effectively-true values, the cells \<open>a i, ..., a i + r i - 1\<close> with \<open>r i \<ge> 1\<close>, then
  \<open>get_class_schedules\<close> returns exactly one block per class, in row order before sorting,
  whose start slot is the slot at index \<open>a i\<close> (the end index minus the run length plus one)
  and whose end slot is the slot at the run's last index; the list is stably sorted by the
  identifier of the start slot.
\<close>

theorem one_block_per_single_run:
  assumes "\<forall>i < length (classes sem). 1 \<le> r i \<and> a i + r i \<le> length (slots st) \<and>
             (\<forall>j < length (slots st).
                is_variable_true (sol (XVar (sem_id sem) i j)) \<longleftrightarrow> a i \<le> j \<and> j < a i + r i)"
  shows "get_class_schedules st sol (SemesterSchedule sem st) =
           Inr (sort_key (\<lambda>b. slot_id (start_slot b))
                  (map (\<lambda>i. \<lparr>cs_class = classes sem ! i,
                               start_slot = slots st ! a i,
                               end_slot = slots st ! (a i + r i - 1)\<rparr>)
                     [0..<length (classes sem)])) \<and>
         (\<forall>i < length (classes sem). int (a i) = int (a i + r i - 1) - int (r i) + 1) \<and>
         length (projr (get_class_schedules st sol (SemesterSchedule sem st))) = length (classes sem) \<and>
         sorted (map (\<lambda>b. slot_id (start_slot b))
                   (projr (get_class_schedules st sol (SemesterSchedule sem st))))"
proof -
  have h: "\<forall>i \<in> set [0..<length (classes sem)].
             i < length (classes sem) \<and> 1 \<le> r i \<and> a i + r i \<le> length (slots st) \<and>
             (\<forall>j < length (slots st). cell_true sol (sem_id sem) i j \<longleftrightarrow> a i \<le> j \<and> j < a i + r i)"
    using assms by (simp add: cell_true_def)
  have idx: "\<forall>i < length (classes sem). int (a i) = int (a i + r i - 1) - int (r i) + 1"
  proof (intro allI impI)
    fix i assume "i < length (classes sem)"
    with assms have "1 \<le> r i" by simp
    then show "int (a i) = int (a i + r i - 1) - int (r i) + 1" by linarith
  qed
  have "scan_rows st sol (SemesterSchedule sem st) [0..<length (classes sem)] [] =
          Inr ([] @ map (\<lambda>i. block st (classes sem ! i) (a i) (a i + r i - 1)) [0..<length (classes sem)])"
    by (rule scan_rows_single_runs [OF h])
  then have res: "get_class_schedules st sol (SemesterSchedule sem st) =
           Inr (sort_key (\<lambda>b. slot_id (start_slot b))
                  (map (\<lambda>i. \<lparr>cs_class = classes sem ! i,
                               start_slot = slots st ! a i,
                               end_slot = slots st ! (a i + r i - 1)\<rparr>)
                     [0..<length (classes sem)]))"
    by (simp add: get_class_schedules_def SemesterSchedule_def block_def)
  have "length (projr (get_class_schedules st sol (SemesterSchedule sem st))) = length (classes sem)"
    by (simp add: res)
  moreover have "sorted (map (\<lambda>b. slot_id (start_slot b))
                   (projr (get_class_schedules st sol (SemesterSchedule sem st))))"
    by (simp only: res sum.sel sorted_sort_key)
  ultimately show ?thesis using res idx by blast
qed

theorem one_block_per_single_run_witness:
  "get_class_schedules ex_storage10 ex_solution345 (SemesterSchedule ex_sem5 ex_storage10) =
     Inr [\<lparr>cs_class = ex_class ''A'' '''' 3 [], start_slot = ex_slot 4, end_slot = ex_slot 6\<rparr>]"
proof -
  have m: "length (classes ex_sem5) = 1" and sid: "sem_id ex_sem5 = 5"
    and c: "classes ex_sem5 ! 0 = ex_class ''A'' '''' 3 []"
    by (simp_all add: ex_sem5_def)
  have n: "length (slots ex_storage10) = 10"
    and s3: "slots ex_storage10 ! 3 = ex_slot 4" and s5: "slots ex_storage10 ! 5 = ex_slot 6"
    by (simp_all add: ex_storage10_def)
  have cell: "is_variable_true (ex_solution345 (XVar 5 0 j)) \<longleftrightarrow> 3 \<le> j \<and> j < 3 + 3" for j
  proof -
    have "is_variable_true (ex_solution345 (XVar 5 0 j)) \<longleftrightarrow> j = 3 \<or> j = 4 \<or> j = 5"
      by (simp add: ex_solution345_def is_variable_true_iff)
    also have "\<dots> \<longleftrightarrow> 3 \<le> j \<and> j < 3 + 3" by arith
    finally show ?thesis .
  qed
  have h: "\<forall>i < length (classes ex_sem5). 1 \<le> (3::nat) \<and> 3 + 3 \<le> length (slots ex_storage10) \<and>
      (\<forall>j < length (slots ex_storage10).
         is_variable_true (ex_solution345 (XVar (sem_id ex_sem5) i j)) \<longleftrightarrow> 3 \<le> j \<and> j < 3 + 3)"
    unfolding m n sid using cell by simp
  from one_block_per_single_run [OF h]
  have "get_class_schedules ex_storage10 ex_solution345 (SemesterSchedule ex_sem5 ex_storage10) =
          Inr (sort_key (\<lambda>b. slot_id (start_slot b))
                 (map (\<lambda>i. \<lparr>cs_class = classes ex_sem5 ! i,
                              start_slot = slots ex_storage10 ! 3,
                              end_slot = slots ex_storage10 ! (3 + 3 - 1)\<rparr>)
                    [0..<length (classes ex_sem5)]))"
    by (rule conjunct1)
  then have "get_class_schedules ex_storage10 ex_solution345 (SemesterSchedule ex_sem5 ex_storage10) =
     Inr [\<lparr>cs_class = ex_class ''A'' '''' 3 [], start_slot = ex_slot 4, end_slot = ex_slot 6\<rparr>]"
    by (simp add: m c s3 s5)
  then show ?thesis .
qed

text \<open>
  Claim C6, as stated, fails: the extractor does not compare a cell with 1. The value
  \<open>1/2\<close> is not within the tolerance of 1 and is classified as assigned.
\<close>

theorem half_classified_as_assigned:
  "is_variable_true (1 / 2) \<and> \<not> isclose (1 / 2) 1"
  by (simp add: is_variable_true_def isclose_def rel_tol_def abs_tol_def)

text \<open>
  Claim C6, amended. A solved cell value is classified by its closeness to 0, not to 1: it
  is unassigned exactly when \<open>math.isclose(v, 0)\<close> holds and assigned otherwise. So the
  value 0 is unassigned, and every value of magnitude at least \<open>1/2\<close>, the value \<open>1/2\<close> and
  the values near 1 alike, is assigned.
\<close>

theorem cell_classified_by_closeness_to_zero:
  "(is_variable_true v \<longleftrightarrow> \<not> isclose v 0) \<and> \<not> is_variable_true 0 \<and>
   (1 / 2 \<le> \<bar>v\<bar> \<longrightarrow> is_variable_true v)"
proof (intro conjI impI)
  show "is_variable_true v \<longleftrightarrow> \<not> isclose v 0"
    by (simp add: is_variable_true_def)
  show "\<not> is_variable_true 0"
    by (simp add: is_variable_true_iff)
  assume "1 / 2 \<le> \<bar>v\<bar>"
  then have "v \<noteq> 0" by auto
  then show "is_variable_true v"
    by (simp add: is_variable_true_iff)
qed

theorem cell_classified_by_closeness_to_zero_witness:
  "is_variable_true 1 \<and> \<not> isclose 1 0 \<and> \<not> is_variable_true 0"
  using cell_classified_by_closeness_to_zero [of 1] by auto

text \<open>
  Claim C9, as stated, fails: for a row with the values 1, 0, 1 the extractor returns two
  blocks for the one class and signals nothing.
\<close>

theorem two_runs_two_blocks_no_signal:
  "get_class_schedules ex_storage3 ex_solution101 (SemesterSchedule ex_sem1 ex_storage3) =
     Inr [\<lparr>cs_class = ex_class ''A'' '''' 2 [], start_slot = ex_slot 1, end_slot = ex_slot 1\<rparr>,
          \<lparr>cs_class = ex_class ''A'' '''' 2 [], start_slot = ex_slot 3, end_slot = ex_slot 3\<rparr>]"
  by code_simp

text \<open>
  Claim C9, amended. The extraction layer has no assertion and no report: for every solved
  matrix \<open>get_class_schedules\<close> returns a list of blocks, whatever the number of runs in a
  row. When no cell of the matrix is effectively true it returns the empty list (no block
  for any class).
\<close>

theorem extraction_never_signals:
  "(\<exists>bs. get_class_schedules st sol (SemesterSchedule sem st) = Inr bs) \<and>
   ((\<forall>i < length (classes sem). \<forall>j < length (slots st).
        \<not> is_variable_true (sol (XVar (sem_id sem) i j))) \<longrightarrow>
    get_class_schedules st sol (SemesterSchedule sem st) = Inr [])"
proof (rule conjI)
  have "\<exists>bs. scan_rows st sol (SemesterSchedule sem st) [0..<length (classes sem)] [] = Inr bs"
    by (rule scan_rows_total) simp
  then show "\<exists>bs. get_class_schedules st sol (SemesterSchedule sem st) = Inr bs"
    by (auto simp: get_class_schedules_def SemesterSchedule_def)
  show "(\<forall>i < length (classes sem). \<forall>j < length (slots st).
        \<not> is_variable_true (sol (XVar (sem_id sem) i j))) \<longrightarrow>
    get_class_schedules st sol (SemesterSchedule sem st) = Inr []"
  proof
    assume h: "\<forall>i < length (classes sem). \<forall>j < length (slots st).
        \<not> is_variable_true (sol (XVar (sem_id sem) i j))"
    have "scan_rows st sol (SemesterSchedule sem st) [0..<length (classes sem)] [] = Inr []"
      by (rule scan_rows_no_true) (use h in \<open>simp add: cell_true_def\<close>)
    then show "get_class_schedules st sol (SemesterSchedule sem st) = Inr []"
      by (simp add: get_class_schedules_def SemesterSchedule_def)
  qed
qed

theorem extraction_never_signals_witness:
  "get_class_schedules ex_storage3 (\<lambda>v. 0) (SemesterSchedule ex_sem1 ex_storage3) = Inr []"
proof -
  have h: "\<forall>i < length (classes ex_sem1). \<forall>j < length (slots ex_storage3).
        \<not> is_variable_true ((\<lambda>v. 0) (XVar (sem_id ex_sem1) i j))"
    by (simp add: is_variable_true_iff)
  from extraction_never_signals [of ex_storage3 "\<lambda>v. 0" ex_sem1] h
  show ?thesis by blast
qed

text \<open>
  Claim C8, as stated, fails: with 3 slots and 2 class days the slot count is not divisible
  by the day count, yet \<open>get_slot_count_per_day\<close> returns 1 and \<open>set_constraints\<close> builds the
  whole model of a semester without an error; the model contains no \<open>False\<close> item and has a
  satisfying assignment.
\<close>

theorem non_divisible_slot_count_accepted:
  "int (length (slots ex_storage3)) mod 2 \<noteq> 0 \<and>
   get_slot_count_per_day 2 ex_storage3 = Inr 1 \<and>
   \<not> isl (set_constraints 2 ex_storage3 (SemesterSchedule ex_sem6 ex_storage3) []) \<and>
   PyBool False \<notin> set (projr (set_constraints 2 ex_storage3 (SemesterSchedule ex_sem6 ex_storage3) [])) \<and>
   feasible ex_assignment6 (projr (set_constraints 2 ex_storage3 (SemesterSchedule ex_sem6 ex_storage3) []))"
  by code_simp

text \<open>
  Claim C8, amended. If some class's required slot count (at least 1) exceeds the slots per
  day, model construction stops with an exception before solving: no window is generated
  for that row, and adding the comparison \<open>0 == 1\<close>, which is \<open>False\<close>, to the model raises
  \<open>TypeError\<close>. A total slot count that is not divisible by the number of class days is not
  detected: for a positive day count \<open>get_slot_count_per_day\<close> returns the floor of slot count
  over day count, and when every class's slot count lies between 1 and that quotient
  \<open>_set_constraints_consecutive_slots\<close> returns normally with the windows and the indicator
  sum of every row.
\<close>

theorem oversize_class_stops_construction:
  assumes "1 \<le> days"
  shows "get_slot_count_per_day days st = Inr (int (length (slots st)) div days) \<and>
         ((\<forall>c \<in> set (classes sem).
             1 \<le> slot_count c \<and> slot_count c \<le> int (length (slots st)) div days) \<longrightarrow>
          set_constraints_consecutive_slots days st (SemesterSchedule sem st) model =
            Inr (model @ concat (map (\<lambda>i. consecutive_row_items (sem_id sem) (length (slots st))
                                              (int (length (slots st)) div days) i
                                              (slot_count (classes sem ! i)))
                                   [0..<length (classes sem)]))) \<and>
         ((\<exists>i < length (classes sem).
             1 \<le> slot_count (classes sem ! i) \<and>
             int (length (slots st)) div days < slot_count (classes sem ! i)) \<longrightarrow>
          isl (set_constraints_consecutive_slots days st (SemesterSchedule sem st) model))"
proof (intro conjI impI)
  let ?n = "length (slots st)" and ?m = "length (classes sem)"
  let ?spd = "int ?n div days"
  let ?ss = "SemesterSchedule sem st"
  have vm: "length (variables_matrix ?ss) = ?m"
    by (simp add: SemesterSchedule_def create_variables_matrix_def)
  show spd: "get_slot_count_per_day days st = Inr ?spd"
    using assms by (simp add: get_slot_count_per_day_def get_slot_count_per_day'_def)
  {
    assume fits: "\<forall>c \<in> set (classes sem). 1 \<le> slot_count c \<and> slot_count c \<le> ?spd"
    have le: "?spd \<le> int ?n"
      using assms by (metis div_by_1 int_ops(1) of_nat_0_le_iff zdiv_mono2 zero_less_one)
    have rows: "\<forall>i \<in> set [0..<?m]. i < ?m \<and> 1 \<le> slot_count (classes sem ! i) \<and>
                  valid_starts ?n ?spd (slot_count (classes sem ! i)) \<noteq> []"
    proof
      fix i assume "i \<in> set [0..<?m]"
      then have i: "i < ?m" by simp
      with fits have k: "1 \<le> slot_count (classes sem ! i)" "slot_count (classes sem ! i) \<le> ?spd"
        by simp_all
      have "0 \<in> set (py_range 0 (int ?n - slot_count (classes sem ! i) + 1))"
        using k le by (simp add: py_range_def)
      moreover have "valid_start ?spd (slot_count (classes sem ! i)) 0"
        using k by (simp add: valid_start_def)
      ultimately have "0 \<in> set (valid_starts ?n ?spd (slot_count (classes sem ! i)))"
        by (simp add: valid_starts_def)
      then have "valid_starts ?n ?spd (slot_count (classes sem ! i)) \<noteq> []" by auto
      with i k show "i < ?m \<and> 1 \<le> slot_count (classes sem ! i) \<and>
                     valid_starts ?n ?spd (slot_count (classes sem ! i)) \<noteq> []" by simp
    qed
    show "set_constraints_consecutive_slots days st ?ss model =
            Inr (model @ concat (map (\<lambda>i. consecutive_row_items (sem_id sem) ?n ?spd i
                                              (slot_count (classes sem ! i))) [0..<?m]))"
    proof (cases "classes sem")
      case Nil
      then show ?thesis
        by (simp add: set_constraints_consecutive_slots_def spd vm)
    next
      case (Cons c cs)
      with fits have "1 \<le> slot_count c" "slot_count c \<le> ?spd" by simp_all
      then have nz: "?spd \<noteq> 0" by linarith
      from consecutive_rows_create [OF nz rows, of None model]
      obtain kl where
        "consecutive_rows ?ss ?spd [0..<?m] (None, model) =
           Inr (kl, model @ concat (map (\<lambda>i. consecutive_row_items (sem_id sem) ?n ?spd i
                                                 (slot_count (classes sem ! i))) [0..<?m]))"
        by blast
      then show ?thesis
        by (simp add: set_constraints_consecutive_slots_def spd vm)
    qed
  }
  {
    assume "\<exists>i < ?m. 1 \<le> slot_count (classes sem ! i) \<and> ?spd < slot_count (classes sem ! i)"
    then obtain i where i: "i < ?m" and k: "1 \<le> slot_count (classes sem ! i)"
      and long: "?spd < slot_count (classes sem ! i)" by blast
    show "isl (set_constraints_consecutive_slots days st ?ss model)"
    proof (rule ccontr)
      assume "\<not> isl (set_constraints_consecutive_slots days st ?ss model)"
      then obtain model' where "set_constraints_consecutive_slots days st ?ss model = Inr model'"
        by (cases "set_constraints_consecutive_slots days st ?ss model") auto
      from set_constraints_consecutive_slots_Inr [OF this] obtain kl where
        "consecutive_rows ?ss ?spd [0..<?m] (None, model) = Inr (kl, model')"
        unfolding vm by blast
      from consecutive_rows_row [OF this _ i k]
      have "valid_starts ?n ?spd (slot_count (classes sem ! i)) \<noteq> []"
        using i by simp
      with no_valid_start [OF k long] show False by simp
    qed
  }
qed

theorem oversize_class_stops_construction_witness:
  "isl (set_constraints_consecutive_slots 2 ex_storage3 (SemesterSchedule ex_sem7 ex_storage3) []) \<and>
   set_constraints_consecutive_slots 2 ex_storage3 (SemesterSchedule ex_sem7 ex_storage3) [] =
     Inl TypeError \<and>
   get_slot_count_per_day 2 ex_storage3 = Inr 1 \<and>
   set_constraints_consecutive_slots 2 ex_storage3 (SemesterSchedule ex_sem6 ex_storage3) [] =
     Inr (consecutive_row_items (sem_id ex_sem6) 3 1 0 1)"
proof -
  have d: "(1::int) \<le> 2" by simp
  have n: "length (slots ex_storage3) = 3" by code_simp
  have q: "int (length (slots ex_storage3)) div 2 = 1" by code_simp
  have m7: "length (classes ex_sem7) = 1" by code_simp
  have k7: "slot_count (classes ex_sem7 ! 0) = 3" by code_simp
  have m6: "length (classes ex_sem6) = 1" by code_simp
  have c6: "\<forall>c \<in> set (classes ex_sem6). 1 \<le> slot_count c \<and> slot_count c \<le> 1" by code_simp
  have k6: "slot_count (classes ex_sem6 ! 0) = 1" by code_simp
  have e: "set_constraints_consecutive_slots 2 ex_storage3 (SemesterSchedule ex_sem7 ex_storage3) [] =
             Inl TypeError" by code_simp
  note inst7 = oversize_class_stops_construction [OF d, of ex_storage3 ex_sem7 "[]"]
  note inst6 = oversize_class_stops_construction [OF d, of ex_storage3 ex_sem6 "[]"]
  from inst7 m7 k7 q
  have "isl (set_constraints_consecutive_slots 2 ex_storage3 (SemesterSchedule ex_sem7 ex_storage3) [])"
    by simp
  moreover from inst6 q have "get_slot_count_per_day 2 ex_storage3 = Inr 1" by simp
  moreover from inst6 c6 q m6 k6 n
  have "set_constraints_consecutive_slots 2 ex_storage3 (SemesterSchedule ex_sem6 ex_storage3) [] =
          Inr (consecutive_row_items (sem_id ex_sem6) 3 1 0 1)"
    by simp
  ultimately show ?thesis using e by simp
qed

text \<open>
  Claim C10. For every semester \<open>init_groups\<close> returns, and after \<open>sort_classes\<close> the group list
  is not empty, so that \<open>common_group\<close> is defined; its first element has the name \<open>""\<close>, and
  has no class when no class of the semester has the empty group name; the other groups
  are sorted by name; every group holds classes of its own name only, sorted by class name;
  the semester's class list is the concatenation of the groups' class lists in group order,
  a rearrangement of the original classes; and the row ranges that the offset arithmetic of
  the per-slot limit gives the groups are, one after the other, exactly the rows of the
  class list.
\<close>

theorem groups_and_classes_after_sorting:
  "\<exists>sem1. init_groups sem = Inr sem1 \<and>
     groups (sort_classes sem1) \<noteq> [] \<and>
     common_group (sort_classes sem1) = Inr (hd (groups (sort_classes sem1))) \<and>
     gname (hd (groups (sort_classes sem1))) = '''' \<and>
     ((\<forall>c \<in> set (classes sem). group_name c \<noteq> '''') \<longrightarrow>
        gclasses (hd (groups (sort_classes sem1))) = []) \<and>
     sorted (map gname (tl (groups (sort_classes sem1)))) \<and>
     (\<forall>g \<in> set (groups (sort_classes sem1)).
        sorted (map class_name (gclasses g)) \<and> (\<forall>c \<in> set (gclasses g). group_name c = gname g)) \<and>
     classes (sort_classes sem1) = concat (map gclasses (groups (sort_classes sem1))) \<and>
     mset (classes (sort_classes sem1)) = mset (classes sem) \<and>
     concat (map (group_rows (groups (sort_classes sem1))) [0..<length (groups (sort_classes sem1))]) =
       [0..<length (classes (sort_classes sem1))]"
proof -
  from init_groups_result [of sem] obtain gl where
    ig: "init_groups sem = Inr (sem\<lparr>groups := hd gl # sort_key gname (tl gl)\<rparr>)"
    and ne: "gl \<noteq> []" and h0: "gname (hd gl) = ''''"
    and nm: "\<forall>g \<in> set gl. \<forall>c \<in> set (gclasses g). group_name c = gname g"
    and ms: "mset (concat (map gclasses gl)) = mset (classes sem)" by blast
  let ?sem1 = "sem\<lparr>groups := hd gl # sort_key gname (tl gl)\<rparr>"
  let ?gs1 = "hd gl # sort_key gname (tl gl)"
  let ?gs2 = "map group_sort_classes ?gs1"
  have g2: "groups (sort_classes ?sem1) = ?gs2"
    and c2: "classes (sort_classes ?sem1) = concat (map gclasses ?gs2)"
    by (simp_all add: sort_classes_eq)
  have set1: "set ?gs1 = set gl" using ne by (cases gl) auto
  have mset1: "mset ?gs1 = mset gl" using ne by (cases gl) auto
  have p1: "?gs2 \<noteq> []" by simp
  have p2: "common_group (sort_classes ?sem1) = Inr (hd ?gs2)"
    by (simp add: common_group_def g2 py_index_zero)
  have p3: "gname (hd ?gs2) = ''''"
    using h0 by (simp add: group_sort_classes_def)
  have p4: "gclasses (hd ?gs2) = []" if "\<forall>c \<in> set (classes sem). group_name c \<noteq> ''''"
  proof -
    have "set (gclasses (hd gl)) \<subseteq> set (concat (map gclasses gl))" using ne by (cases gl) auto
    also have "\<dots> = set (classes sem)" using ms by (rule mset_eq_setD)
    finally have "\<forall>c \<in> set (gclasses (hd gl)). group_name c \<noteq> ''''" using that by blast
    moreover have "\<forall>c \<in> set (gclasses (hd gl)). group_name c = ''''"
      using nm ne h0 by (cases gl) auto
    ultimately have "gclasses (hd gl) = []" by (cases "gclasses (hd gl)") auto
    then show ?thesis by (simp add: group_sort_classes_def)
  qed
  have gn: "map gname (map group_sort_classes xs) = map gname xs" for xs
    by (simp add: group_sort_classes_def)
  have "tl ?gs2 = map group_sort_classes (sort_key gname (tl gl))" by simp
  then have "map gname (tl ?gs2) = map gname (sort_key gname (tl gl))"
    by (simp only: gn)
  then have p5: "sorted (map gname (tl ?gs2))"
    by (simp only: sorted_sort_key)
  have p6: "\<forall>g \<in> set ?gs2. sorted (map class_name (gclasses g)) \<and>
              (\<forall>c \<in> set (gclasses g). group_name c = gname g)"
  proof
    fix g assume "g \<in> set ?gs2"
    then obtain g0 where g0: "g0 \<in> set ?gs1" and g: "g = group_sort_classes g0" by auto
    from g0 have "g0 \<in> set gl" unfolding set1 .
    with nm have "\<forall>c \<in> set (gclasses g0). group_name c = gname g0" by blast
    then show "sorted (map class_name (gclasses g)) \<and>
               (\<forall>c \<in> set (gclasses g). group_name c = gname g)"
      by (simp add: g group_sort_classes_def)
  qed
  have "mset (concat (map gclasses ?gs2)) = mset (concat (map (\<lambda>g. gclasses (group_sort_classes g)) ?gs1))"
    by (simp add: comp_def del: list.map)
  also have "\<dots> = mset (concat (map (\<lambda>g. gclasses (group_sort_classes g)) gl))"
    using mset1 by (rule mset_concat_perm)
  also have "\<dots> = mset (concat (map gclasses gl))"
    by (simp add: mset_concat_sum comp_def group_sort_classes_def)
  finally have p8: "mset (concat (map gclasses ?gs2)) = mset (classes sem)"
    using ms by simp
  have p9: "concat (map (group_rows ?gs2) [0..<length ?gs2]) = [0..<length (concat (map gclasses ?gs2))]"
    unfolding length_concat_classes by (rule group_rows_cover)
  show ?thesis
  proof (intro exI [of _ ?sem1] conjI impI)
    show "init_groups sem = Inr ?sem1" by (rule ig)
    show "groups (sort_classes ?sem1) \<noteq> []" unfolding g2 by (rule p1)
    show "common_group (sort_classes ?sem1) = Inr (hd (groups (sort_classes ?sem1)))"
      unfolding g2 by (rule p2)
    show "gname (hd (groups (sort_classes ?sem1))) = ''''" unfolding g2 by (rule p3)
    show "gclasses (hd (groups (sort_classes ?sem1))) = []"
      if "\<forall>c \<in> set (classes sem). group_name c \<noteq> ''''"
      unfolding g2 using that by (rule p4)
    show "sorted (map gname (tl (groups (sort_classes ?sem1))))" unfolding g2 by (rule p5)
    show "\<forall>g \<in> set (groups (sort_classes ?sem1)).
            sorted (map class_name (gclasses g)) \<and> (\<forall>c \<in> set (gclasses g). group_name c = gname g)"
      unfolding g2 by (rule p6)
    show "classes (sort_classes ?sem1) = concat (map gclasses (groups (sort_classes ?sem1)))"
      unfolding g2 by (rule c2)
    show "mset (classes (sort_classes ?sem1)) = mset (classes sem)"
      unfolding c2 by (rule p8)
    show "concat (map (group_rows (groups (sort_classes ?sem1)))
                    [0..<length (groups (sort_classes ?sem1))]) =
          [0..<length (classes (sort_classes ?sem1))]"
      unfolding g2 c2 by (rule p9)
  qed
qed

theorem groups_and_classes_after_sorting_witness:
  "\<not> isl (init_groups ex_sem8) \<and>
   gclasses (hd (groups (sort_classes (projr (init_groups ex_sem8))))) = [] \<and>
   sorted (map gname (tl (groups (sort_classes (projr (init_groups ex_sem8)))))) \<and>
   map gname (groups (sort_classes (projr (init_groups ex_sem8)))) = ['''', ''a'', ''b''] \<and>
   map class_name (classes (sort_classes (projr (init_groups ex_sem8)))) = [''x'', ''a'', ''y''] \<and>
   map (group_rows (groups (sort_classes (projr (init_groups ex_sem8))))) [0, 1, 2] = [[], [0], [1, 2]]"
proof -
  have h: "\<forall>c \<in> set (classes ex_sem8). group_name c \<noteq> ''''" by code_simp
  from groups_and_classes_after_sorting [of ex_sem8] obtain sem1 where
    ig: "init_groups ex_sem8 = Inr sem1"
    and e: "(\<forall>c \<in> set (classes ex_sem8). group_name c \<noteq> '''') \<longrightarrow>
              gclasses (hd (groups (sort_classes sem1))) = []"
    and s: "sorted (map gname (tl (groups (sort_classes sem1))))"
    by blast
  from ig have p: "projr (init_groups ex_sem8) = sem1" and l: "\<not> isl (init_groups ex_sem8)"
    by simp_all
  have n: "map gname (groups (sort_classes (projr (init_groups ex_sem8)))) = ['''', ''a'', ''b'']"
    by code_simp
  have c: "map class_name (classes (sort_classes (projr (init_groups ex_sem8)))) = [''x'', ''a'', ''y'']"
    by code_simp
  have r: "map (group_rows (groups (sort_classes (projr (init_groups ex_sem8))))) [0, 1, 2] =
             [[], [0], [1, 2]]"
    by code_simp
  from e h s l n c r show ?thesis unfolding p by blast
qed

end
